theory Spec2Isabelle
  imports Complex_Main "HOL-Library.Option_ord" "HOL-Library.Char_ord" "HOL-Library.List_Lexorder"
begin

section \<open>Text\<close>

text \<open>
  Text is a \<^typ>\<open>string\<close>: the bytes of its UTF-8 encoding. \<open>lower\<close> and \<open>upper\<close> change
  the ASCII letters and nothing else. That is SQLite's \<open>UPPER\<close> on any text, and Python's
  \<open>str.lower\<close> and \<open>str.upper\<close> on ASCII text; indicator names and entity codes, on which
  the source calls the Python functions, are taken to be ASCII. Python floats and SQLite
  reals are idealised as \<^typ>\<open>real\<close>, Python integers are \<^typ>\<open>int\<close>.
\<close>

definition lower_char :: "char \<Rightarrow> char" where
  "lower_char c = (let n = (of_char c :: nat) in if 65 \<le> n \<and> n \<le> 90 then char_of (n + 32) else c)"

definition upper_char :: "char \<Rightarrow> char" where
  "upper_char c = (let n = (of_char c :: nat) in if 97 \<le> n \<and> n \<le> 122 then char_of (n - 32) else c)"

definition lower :: "string \<Rightarrow> string" where
  "lower s = map lower_char s"

definition upper :: "string \<Rightarrow> string" where
  "upper s = map upper_char s"

text \<open>\<open>s.startswith(p)\<close>, \<open>s.endswith(p)\<close> and the substring test \<open>sub in s\<close>.\<close>

fun startswith :: "string \<Rightarrow> string \<Rightarrow> bool" where
  "startswith s [] = True"
| "startswith [] (p # ps) = False"
| "startswith (c # cs) (p # ps) = (c = p \<and> startswith cs ps)"

definition endswith :: "string \<Rightarrow> string \<Rightarrow> bool" where
  "endswith s p = startswith (rev s) (rev p)"

fun contains :: "string \<Rightarrow> string \<Rightarrow> bool" where
  "contains sub [] = (sub = [])"
| "contains sub (c # cs) = (startswith (c # cs) sub \<or> contains sub cs)"

section \<open>Errors\<close>

datatype py_error = ZeroDivisionError | IndexError | ValueError | AttributeError | OverflowError

section \<open>CoordinateDecoder\<close>

text \<open>
  \<^verbatim>\<open>
  def _index_to_coords(index, sizes):
      coords = []
      for size in reversed(sizes):
          coords.append(index % size)
          index //= size
      return list(reversed(coords))
  \<close>
  Python's \<open>%\<close> and \<open>//\<close> on integers are floor division, as \<open>mod\<close> and \<open>div\<close> on
  \<^typ>\<open>int\<close>; a size of zero raises \<open>ZeroDivisionError\<close>.
\<close>

fun coords_loop :: "int \<Rightarrow> int list \<Rightarrow> int list \<Rightarrow> py_error + int list" where
  "coords_loop index [] coords = Inr coords"
| "coords_loop index (sz # rest) coords =
     (if sz = 0 then Inl ZeroDivisionError
      else coords_loop (index div sz) rest (coords @ [index mod sz]))"

definition index_to_coords :: "int \<Rightarrow> int list \<Rightarrow> py_error + int list" where
  "index_to_coords index sizes =
     (case coords_loop index (rev sizes) [] of
        Inl e \<Rightarrow> Inl e
      | Inr coords \<Rightarrow> Inr (rev coords))"

text \<open>
  The inverse the round-trip property speaks of is not in the source. It is written here
  from the convention of section 4.1: the last dimension varies fastest, so a coordinate
  list is read as a mixed-radix numeral, most significant dimension first.
\<close>

definition coords_to_index :: "int list \<Rightarrow> int list \<Rightarrow> int" where
  "coords_to_index coords sizes = foldl (\<lambda>acc (c, sz). acc * sz + c) 0 (zip coords sizes)"

text \<open>The coordinates the loop collects, in the order it collects them (last dimension first).\<close>

fun digits :: "int \<Rightarrow> int list \<Rightarrow> int list" where
  "digits i [] = []"
| "digits i (s # ss) = (i mod s) # digits (i div s) ss"

section \<open>Normalizer\<close>

text \<open>
  \<^verbatim>\<open>
  def _normalize_value(self, value, indicator_name):
      name = indicator_name.lower()
      if "%" in name: return min(value / 100.0, 1.0)
      if "minutes" in name: return min(value / 60.0, 1.0)
      if "km" in name: return min(value / 50.0, 1.0)
      if "eur" in name: return min(value / 100.0, 1.0)
      if "per 1000" in name: return min(value / 1000.0, 1.0)
      return min(value / 100000.0, 1.0)
  \<close>
\<close>

definition normalize_value :: "real \<Rightarrow> string \<Rightarrow> real" where
  "normalize_value v indicator_name =
     (let name = lower indicator_name in
      if contains ''%'' name then min (v / 100) 1
      else if contains ''minutes'' name then min (v / 60) 1
      else if contains ''km'' name then min (v / 50) 1
      else if contains ''eur'' name then min (v / 100) 1
      else if contains ''per 1000'' name then min (v / 1000) 1
      else min (v / 100000) 1)"

text \<open>
  \<^verbatim>\<open>
  def _is_lower_better(self, indicator_name):
      keywords = ["car", "motor cycle", "death", "accident", "cost", "time", "minutes", "eur"]
      return any(k in indicator_name.lower() for k in keywords)
  \<close>
\<close>

definition is_lower_better :: "string \<Rightarrow> bool" where
  "is_lower_better indicator_name =
     list_ex (\<lambda>k. contains k (lower indicator_name))
       [''car'', ''motor cycle'', ''death'', ''accident'', ''cost'', ''time'', ''minutes'', ''eur'']"

text \<open>
  The rule table of section 4.5, written from the specification: an ordered list of
  (marker, divisor) pairs, the first marker that occurs in the name in any letter case
  wins, and the default divisor is 100000.
\<close>

definition occurs_ignoring_case :: "string \<Rightarrow> string \<Rightarrow> bool" where
  "occurs_ignoring_case marker name =
     list_ex (\<lambda>k. lower (take (length marker) (drop k name)) = lower marker) [0..<Suc (length name)]"

fun first_match :: "(string \<times> real) list \<Rightarrow> string \<Rightarrow> real" where
  "first_match [] name = 100000"
| "first_match ((marker, divisor) # rules) name =
     (if occurs_ignoring_case marker name then divisor else first_match rules name)"

definition unit_rules :: "(string \<times> real) list" where
  "unit_rules = [(''%'', 100), (''minutes'', 60), (''km'', 50), (''eur'', 100), (''per 1000'', 1000)]"

definition normalize_spec :: "real \<Rightarrow> string \<Rightarrow> real" where
  "normalize_spec v name = min (v / first_match unit_rules name) 1"

section \<open>Python dictionaries\<close>

text \<open>
  A dictionary whose iteration order matters is an association list in insertion order
  with distinct keys. \<open>d[k] = v\<close> overwrites the entry of an existing key in place and
  appends a new key at the end; \<open>d.get(k)\<close> is \<^const>\<open>map_of\<close>.
\<close>

fun dict_set :: "('k \<times> 'v) list \<Rightarrow> 'k \<Rightarrow> 'v \<Rightarrow> ('k \<times> 'v) list" where
  "dict_set [] k v = [(k, v)]"
| "dict_set ((k', v') # kvs) k v =
     (if k' = k then (k, v) # kvs else (k', v') # dict_set kvs k v)"

definition dict_get_default :: "('k \<times> 'v) list \<Rightarrow> 'k \<Rightarrow> 'v \<Rightarrow> 'v" where
  "dict_get_default d k dflt = (case map_of d k of None \<Rightarrow> dflt | Some v \<Rightarrow> v)"

section \<open>CubeDecoder\<close>

text \<open>
  The cube is the parsed JSON document. A key of a Python dictionary is any hashable value;
  the only dictionary the code indexes with a number is \<open>status\<close>, so its keys are
  \<open>pykey\<close>: the keys of a JSON object are text (\<open>KStr\<close>), the flat index \<open>idx\<close> the
  decoder looks up is an integer (\<open>KInt\<close>), and in Python \<open>0 == "0"\<close> is false.
  A missing \<open>dimension\<close>, \<open>category\<close>, \<open>index\<close> or \<open>label\<close> entry reads as the empty
  dictionary, as the \<open>.get(..., {})\<close> calls of the source do. The value array holds
  numbers and nulls.
\<close>

datatype pykey = KInt int | KStr string

record category =
  cat_index :: "(string \<times> int) list"
  cat_label :: "(string \<times> string) list"

record cube =
  cube_id :: "string list"
  cube_size :: "int list"
  cube_dimension :: "(string \<times> category) list"
  cube_value :: "real option list"
  cube_status :: "(pykey \<times> string) list"

text \<open>
  A decoded record is the dictionary \<open>record\<close> of the source: the text entries written for
  the dimensions (\<open>rec_fields\<close>, in insertion order), and the two entries \<open>'value'\<close> and
  \<open>'status'\<close>, which are assigned last and so replace what a dimension of that very name
  had written. None of the three name tests of \<open>store_data\<close> (ends with \<open>ies\<close>, starts
  with \<open>indic\<close>, equals \<open>time\<close>) holds of \<open>'value'\<close> or \<open>'status'\<close>, so searching the
  keys of \<open>rec_fields\<close> is searching the keys of the dictionary.
\<close>

record flat_record =
  rec_fields :: "(string \<times> string) list"
  rec_value :: "real option"
  rec_status :: string

definition category_of :: "cube \<Rightarrow> string \<Rightarrow> category" where
  "category_of c dim_name =
     dict_get_default (cube_dimension c) dim_name \<lparr>cat_index = [], cat_label = []\<rparr>"

text \<open>
  \<^verbatim>\<open>
  for i, dim_name in enumerate(dim_names):
      dim_index = coords[i]
      cat_index = indices[dim_name]['index']
      cat_label = indices[dim_name]['label']
      for key, val in cat_index.items():
          if val == dim_index:
              record[dim_name] = key
              record[f'{dim_name}_label'] = cat_label.get(key, key)
              break
  \<close>
  \<open>coords[i]\<close> raises \<open>IndexError\<close> when there are fewer sizes than dimension names.
\<close>

fun dims_loop :: "cube \<Rightarrow> int list \<Rightarrow> nat \<Rightarrow> string list \<Rightarrow> (string \<times> string) list
    \<Rightarrow> py_error + (string \<times> string) list" where
  "dims_loop c coords i [] record = Inr record"
| "dims_loop c coords i (dim_name # rest) record =
     (if length coords \<le> i then Inl IndexError
      else
        (case find (\<lambda>(key, val). val = coords ! i) (cat_index (category_of c dim_name)) of
           None \<Rightarrow> dims_loop c coords (Suc i) rest record
         | Some (key, val) \<Rightarrow>
             dims_loop c coords (Suc i) rest
               (dict_set (dict_set record dim_name key) (dim_name @ ''_label'')
                  (dict_get_default (cat_label (category_of c dim_name)) key key))))"

text \<open>
  \<^verbatim>\<open>
  record['value'] = value
  record['status'] = status.get(idx, '') if status else ''
  \<close>
\<close>

definition decode_cell :: "cube \<Rightarrow> nat \<Rightarrow> real option \<Rightarrow> py_error + flat_record" where
  "decode_cell c idx v =
     (case index_to_coords (int idx) (cube_size c) of
        Inl e \<Rightarrow> Inl e
      | Inr coords \<Rightarrow>
          (case dims_loop c coords 0 (cube_id c) [] of
             Inl e \<Rightarrow> Inl e
           | Inr record \<Rightarrow>
               Inr \<lparr>rec_fields = filter (\<lambda>(k, x). k \<noteq> ''value'' \<and> k \<noteq> ''status'') record,
                    rec_value = v,
                    rec_status =
                      (if cube_status c \<noteq> [] then dict_get_default (cube_status c) (KInt (int idx)) ''''
                       else '''')\<rparr>))"

text \<open>
  \<^verbatim>\<open>
  records = []
  for idx, value in enumerate(values):
      ...
      records.append(record)
  return records
  \<close>
  Nothing in \<open>parse_jsonstat\<close> compares the product of the sizes with the number of values.
\<close>

fun cells_loop :: "cube \<Rightarrow> nat \<Rightarrow> real option list \<Rightarrow> flat_record list \<Rightarrow> py_error + flat_record list" where
  "cells_loop c idx [] records = Inr records"
| "cells_loop c idx (v # vs) records =
     (case decode_cell c idx v of
        Inl e \<Rightarrow> Inl e
      | Inr record \<Rightarrow> cells_loop c (Suc idx) vs (records @ [record]))"

definition parse_jsonstat :: "cube \<Rightarrow> py_error + flat_record list" where
  "parse_jsonstat c = cells_loop c 0 (cube_value c) []"

section \<open>Reading integers\<close>

text \<open>
  \<open>int(s)\<close> on text, for ASCII decimal literals: surrounding whitespace is dropped, a sign
  may lead, digits follow, single underscores may stand between digits. Anything else
  raises \<open>ValueError\<close> (\<open>None\<close> here).
\<close>

definition is_space :: "char \<Rightarrow> bool" where
  "is_space c = (c \<in> set [CHR 0x09, CHR 0x0A, CHR 0x0B, CHR 0x0C, CHR 0x0D,
                            CHR 0x1C, CHR 0x1D, CHR 0x1E, CHR 0x1F, CHR 0x20])"

definition strip :: "string \<Rightarrow> string" where
  "strip s = rev (dropWhile is_space (rev (dropWhile is_space s)))"

definition digit_val :: "char \<Rightarrow> nat option" where
  "digit_val c = map_of (zip ''0123456789'' [0..<10]) c"

fun digits_value :: "nat \<Rightarrow> string \<Rightarrow> nat option" where
  "digits_value acc [] = Some acc"
| "digits_value acc [c] = map_option (\<lambda>k. acc * 10 + k) (digit_val c)"
| "digits_value acc (c # d # ds) =
     (if c = CHR ''_'' then
        (case digit_val d of None \<Rightarrow> None | Some k \<Rightarrow> digits_value (acc * 10 + k) ds)
      else
        (case digit_val c of None \<Rightarrow> None | Some k \<Rightarrow> digits_value (acc * 10 + k) (d # ds)))"

definition unsigned_literal :: "string \<Rightarrow> nat option" where
  "unsigned_literal s =
     (case s of
        [] \<Rightarrow> None
      | c # cs \<Rightarrow> (case digit_val c of None \<Rightarrow> None | Some k \<Rightarrow> digits_value k cs))"

definition py_int :: "string \<Rightarrow> int option" where
  "py_int s =
     (case strip s of
        [] \<Rightarrow> None
      | c # cs \<Rightarrow>
          if c = CHR ''-'' then map_option (\<lambda>n. - int n) (unsigned_literal cs)
          else if c = CHR ''+'' then map_option int (unsigned_literal cs)
          else map_option int (unsigned_literal (c # cs)))"

section \<open>IndicatorStore\<close>

text \<open>
  The two tables of \<open>_init_db\<close>. A column that can hold \<open>NULL\<close> has an option type. A
  table is the list of its rows in insertion order (the order of their row ids; the
  \<open>id\<close> column of \<open>indicators\<close> is that order and is not stored again).
  \<^verbatim>\<open>
  CREATE TABLE cities (city_code TEXT PRIMARY KEY, city_name TEXT, country TEXT,
                       lat REAL, lng REAL, population INTEGER)
  CREATE TABLE indicators (id INTEGER PRIMARY KEY AUTOINCREMENT, city_code TEXT,
                       indicator_code TEXT, indicator_name TEXT, year INTEGER, value REAL,
                       status TEXT, UNIQUE(city_code, indicator_code, year))
  \<close>
\<close>

record city =
  city_code :: string
  city_name :: "string option"
  country :: "string option"
  lat :: "real option"
  lng :: "real option"
  population :: "int option"

record observation =
  obs_city_code :: string
  indicator_code :: string
  indicator_name :: "string option"
  year :: "int option"
  obs_value :: "real option"
  status :: string

record store =
  cities :: "city list"
  indicators :: "observation list"

record counters =
  cities_added :: nat
  indicators_added :: nat
  skipped :: nat
  errors :: nat

text \<open>
  \<open>INSERT OR IGNORE INTO cities (city_code, city_name, country)\<close>: a row whose primary
  key is already there is left alone and \<open>rowcount\<close> is 0; otherwise the row is added with
  the remaining columns \<open>NULL\<close>.
\<close>

definition insert_or_ignore_city :: "store \<Rightarrow> string \<Rightarrow> string option \<Rightarrow> string \<Rightarrow> store \<times> nat" where
  "insert_or_ignore_city db code name ctry =
     (if code \<in> set (map city_code (cities db)) then (db, 0)
      else (db\<lparr>cities := cities db @
               [\<lparr>city_code = code, city_name = name, country = Some ctry,
                 lat = None, lng = None, population = None\<rparr>]\<rparr>, 1))"

text \<open>
  \<open>INSERT OR REPLACE INTO indicators\<close>: the rows that violate
  \<open>UNIQUE(city_code, indicator_code, year)\<close> together with the new row are deleted, then
  the new row is added. In SQLite a \<open>NULL\<close> is distinct from every value in a \<open>UNIQUE\<close>
  constraint, also from another \<open>NULL\<close>: a row without a year conflicts with no row.
\<close>

definition conflicts :: "observation \<Rightarrow> observation \<Rightarrow> bool" where
  "conflicts old new =
     (obs_city_code old = obs_city_code new \<and> indicator_code old = indicator_code new
      \<and> (case year new of None \<Rightarrow> False | Some y \<Rightarrow> year old = Some y))"

definition insert_or_replace_observation :: "store \<Rightarrow> observation \<Rightarrow> store" where
  "insert_or_replace_observation db new =
     db\<lparr>indicators := filter (\<lambda>old. \<not> conflicts old new) (indicators db) @ [new]\<rparr>"

section \<open>DimensionRoleResolver and ingestion\<close>

text \<open>\<open>next((k for k in record if p(k)), None)\<close>.\<close>

definition first_key :: "(string \<Rightarrow> bool) \<Rightarrow> flat_record \<Rightarrow> string option" where
  "first_key p record = find p (map fst (rec_fields record))"

text \<open>
  The body of the loop of \<open>store_data\<close> for one record. An exception inside the
  \<open>try\<close> is caught and counted in \<open>errors\<close>; what the loop had already written for the
  record stays. The only conversion that can fail on a decoded record is \<open>int\<close> on the
  text of the time field (the value of a record is a number or \<open>None\<close>); and binding
  a year outside the 64-bit range of an SQLite integer makes \<open>cursor.execute\<close> raise
  \<open>OverflowError\<close>, so that no row is written.
  \<^verbatim>\<open>
  city_key = next((k for k in record if k.endswith('ies')), None)
  if not city_key:
      skipped += 1; continue
  city_code = record.get(city_key)
  city_name = record.get(f'{city_key}_label')
  if not city_code or not city_code.endswith('C'):
      skipped += 1; continue
  country = city_code[:2].upper()
  cursor.execute("INSERT OR IGNORE INTO cities ...", (city_code, city_name, country))
  if cursor.rowcount > 0: cities_added += 1
  indic_key = next((k for k in record if k.startswith('indic')), None)
  if not indic_key:
      continue
  year_key = next((k for k in record if k == 'time'), None)
  year = int(record.get(year_key, 0)) if year_key else None
  value = float(record.get('value', None)) if record.get('value') is not None else None
  cursor.execute("INSERT OR REPLACE INTO indicators ...",
      (city_code, record[indic_key], record.get(f'{indic_key}_label'), year, value,
       record.get('status', '')))
  indicators_added += 1
  \<close>
\<close>

definition read_year :: "flat_record \<Rightarrow> py_error + int option" where
  "read_year record =
     (case first_key (\<lambda>k. k = ''time'') record of
        None \<Rightarrow> Inr None
      | Some year_key \<Rightarrow>
          (case map_of (rec_fields record) year_key of
             None \<Rightarrow> Inr (Some 0)
           | Some text \<Rightarrow> (case py_int text of None \<Rightarrow> Inl ValueError | Some y \<Rightarrow> Inr (Some y))))"

definition sqlite_integer :: "int option \<Rightarrow> bool" where
  "sqlite_integer y = (case y of None \<Rightarrow> True | Some n \<Rightarrow> - (2 ^ 63) \<le> n \<and> n < 2 ^ 63)"

definition store_indicator :: "store \<times> counters \<Rightarrow> flat_record \<Rightarrow> string \<Rightarrow> store \<times> counters" where
  "store_indicator st record code =
     (case first_key (\<lambda>k. startswith k ''indic'') record of
        None \<Rightarrow> st
      | Some indic_key \<Rightarrow>
          (case read_year record of
             Inl e \<Rightarrow> (fst st, (snd st)\<lparr>errors := errors (snd st) + 1\<rparr>)
           | Inr y \<Rightarrow>
               (case map_of (rec_fields record) indic_key of
                  None \<Rightarrow> (fst st, (snd st)\<lparr>errors := errors (snd st) + 1\<rparr>)
                | Some icode \<Rightarrow>
                    if \<not> sqlite_integer y
                    then (fst st, (snd st)\<lparr>errors := errors (snd st) + 1\<rparr>)
                    else
                      (insert_or_replace_observation (fst st)
                         \<lparr>obs_city_code = code, indicator_code = icode,
                          indicator_name = map_of (rec_fields record) (indic_key @ ''_label''),
                          year = y, obs_value = rec_value record, status = rec_status record\<rparr>,
                       (snd st)\<lparr>indicators_added := indicators_added (snd st) + 1\<rparr>))))"

definition store_record :: "store \<times> counters \<Rightarrow> flat_record \<Rightarrow> store \<times> counters" where
  "store_record st record =
     (case first_key (\<lambda>k. endswith k ''ies'') record of
        None \<Rightarrow> (fst st, (snd st)\<lparr>skipped := skipped (snd st) + 1\<rparr>)
      | Some city_key \<Rightarrow>
          (case map_of (rec_fields record) city_key of
             None \<Rightarrow> (fst st, (snd st)\<lparr>skipped := skipped (snd st) + 1\<rparr>)
           | Some code \<Rightarrow>
               if code = [] \<or> \<not> endswith code ''C''
               then (fst st, (snd st)\<lparr>skipped := skipped (snd st) + 1\<rparr>)
               else
                 (case insert_or_ignore_city (fst st) code
                         (map_of (rec_fields record) (city_key @ ''_label'')) (upper (take 2 code)) of
                    (db, rowcount) \<Rightarrow>
                      store_indicator
                        (db, (snd st)\<lparr>cities_added := cities_added (snd st) + rowcount\<rparr>)
                        record code)))"

text \<open>
  \<^verbatim>\<open>
  def store_data(self, dataset):
      records = self.parse_jsonstat(dataset)
      cities_added = indicators_added = skipped = errors = 0
      for record in records: ...
      self.conn.commit()
  \<close>
  An exception of \<open>parse_jsonstat\<close> leaves \<open>store_data\<close> before anything is written.
\<close>

definition no_counts :: counters where
  "no_counts = \<lparr>cities_added = 0, indicators_added = 0, skipped = 0, errors = 0\<rparr>"

definition store_data :: "store \<Rightarrow> cube \<Rightarrow> py_error + store \<times> counters" where
  "store_data db dataset =
     (case parse_jsonstat dataset of
        Inl e \<Rightarrow> Inl e
      | Inr records \<Rightarrow> Inr (foldl store_record (db, no_counts) records))"

section \<open>ScoringEngine\<close>

text \<open>
  \<^verbatim>\<open>
  SELECT value, indicator_name FROM indicators
  WHERE city_code = ? AND indicator_code = ? ORDER BY year DESC LIMIT 1
  \<close>
  SQLite orders \<open>NULL\<close> before every number, so a row without a year comes last in
  descending order. SQL does not fix the order of rows with the same year (there are such
  rows only without a year); the model takes them latest insertion first.
\<close>

definition latest_value :: "store \<Rightarrow> string \<Rightarrow> string \<Rightarrow> (real option \<times> string option) option" where
  "latest_value db code icode =
     (case rev (sort_key year
                 (filter (\<lambda>row. obs_city_code row = code \<and> indicator_code row = icode) (indicators db))) of
        [] \<Rightarrow> None
      | row # rows \<Rightarrow> Some (obs_value row, indicator_name row))"

text \<open>
  \<^verbatim>\<open>
  def calculate_score(self, city_code, weights):
      """Calculate a normalized quality score (0-1) for a city."""
      total_score = 0.0
      total_weight = 0.0
      for indicator_code, weight in weights.items():
          result = <the query above>
          if result and result[0] is not None:
              value, indicator_name = result[0], result[1]
              normalized = self._normalize_value(value, indicator_name)
              if self._is_lower_better(indicator_name):
                  normalized = 1 - normalized
              total_score += normalized * weight
              total_weight += weight
      return (total_score / total_weight) if total_weight > 0 else 0.0
  \<close>
  The weight map is a dictionary, iterated in insertion order. A row whose name is
  \<open>NULL\<close> makes \<open>indicator_name.lower()\<close> raise \<open>AttributeError\<close>.
\<close>

definition adjusted :: "real \<Rightarrow> string \<Rightarrow> real" where
  "adjusted v name =
     (let normalized = normalize_value v name
      in if is_lower_better name then 1 - normalized else normalized)"

fun score_loop :: "store \<Rightarrow> string \<Rightarrow> (string \<times> real) list \<Rightarrow> real \<Rightarrow> real \<Rightarrow> py_error + real \<times> real" where
  "score_loop db code [] total_score total_weight = Inr (total_score, total_weight)"
| "score_loop db code ((icode, weight) # rest) total_score total_weight =
     (case latest_value db code icode of
        Some (Some v, result1) \<Rightarrow>
          (case result1 of
             None \<Rightarrow> Inl AttributeError
           | Some name \<Rightarrow>
               score_loop db code rest (total_score + adjusted v name * weight)
                 (total_weight + weight))
      | _ \<Rightarrow> score_loop db code rest total_score total_weight)"

definition calculate_score :: "store \<Rightarrow> string \<Rightarrow> (string \<times> real) list \<Rightarrow> py_error + real" where
  "calculate_score db code weights =
     (case score_loop db code weights 0 0 of
        Inl e \<Rightarrow> Inl e
      | Inr (total_score, total_weight) \<Rightarrow>
          Inr (if total_weight > 0 then total_score / total_weight else 0))"

section \<open>RankingEngine\<close>

text \<open>
  A row of a ranking: \<open>rank_cities\<close> returns code, name, country and the rounded score;
  the population ranking returns name, country and the population as score.
\<close>

datatype ranking = Scored string "string option" "string option" real
  | ByPopulation "string option" "string option" "int option"

text \<open>\<open>round(score, 3)\<close>, on reals: to the nearest multiple of 1/1000, a tie to the even one.\<close>

definition round3 :: "real \<Rightarrow> real" where
  "round3 x =
     (let f = \<lfloor>x * 1000\<rfloor>; d = x * 1000 - of_int f
      in of_int (if d < 1 / 2 then f else if 1 / 2 < d then f + 1 else if even f then f else f + 1) / 1000)"

text \<open>\<open>xs[:limit]\<close> (a negative limit counts from the end) and SQL's \<open>LIMIT\<close> (a negative limit is none).\<close>

definition slice_to :: "int \<Rightarrow> 'a list \<Rightarrow> 'a list" where
  "slice_to limit xs = (if limit < 0 then take (length xs - nat (- limit)) xs else take (nat limit) xs)"

definition sql_limit :: "int \<Rightarrow> 'a list \<Rightarrow> 'a list" where
  "sql_limit limit xs = (if limit < 0 then xs else take (nat limit) xs)"

definition ranking_score :: "ranking \<Rightarrow> real" where
  "ranking_score r = (case r of Scored code name ctry s \<Rightarrow> s | ByPopulation name ctry p \<Rightarrow> 0)"

text \<open>
  \<^verbatim>\<open>
  def rank_cities(self, weights, limit=10, country_filter=None):
      if country_filter:
          cursor.execute("SELECT city_code, city_name, country FROM cities WHERE country = ?", ...)
      else:
          cursor.execute("SELECT city_code, city_name, country FROM cities")
      cities = cursor.fetchall()
      rankings = []
      for city_code, city_name, country in cities:
          score = self.calculate_score(city_code, weights)
          if score > 0:
              rankings.append({..., "score": round(score, 3)})
      rankings.sort(key=lambda x: x["score"], reverse=True)
      return rankings[:limit]
  \<close>
  \<open>country = ?\<close> compares text byte by byte. Python's sort is stable, also with
  \<open>reverse=True\<close>.
\<close>

definition select_cities :: "store \<Rightarrow> string option \<Rightarrow> city list" where
  "select_cities db country_filter =
     (case country_filter of
        None \<Rightarrow> cities db
      | Some f \<Rightarrow> if f = [] then cities db else filter (\<lambda>row. country row = Some f) (cities db))"

fun rankings_loop :: "store \<Rightarrow> (string \<times> real) list \<Rightarrow> city list \<Rightarrow> ranking list \<Rightarrow> py_error + ranking list" where
  "rankings_loop db weights [] rankings = Inr rankings"
| "rankings_loop db weights (row # rows) rankings =
     (case calculate_score db (city_code row) weights of
        Inl e \<Rightarrow> Inl e
      | Inr score \<Rightarrow>
          rankings_loop db weights rows
            (if score > 0
             then rankings @ [Scored (city_code row) (city_name row) (country row) (round3 score)]
             else rankings))"

definition rank_cities :: "store \<Rightarrow> (string \<times> real) list \<Rightarrow> int \<Rightarrow> string option \<Rightarrow> py_error + ranking list" where
  "rank_cities db weights limit country_filter =
     (case rankings_loop db weights (select_cities db country_filter) [] of
        Inl e \<Rightarrow> Inl e
      | Inr rankings \<Rightarrow> Inr (slice_to limit (sort_key (\<lambda>r. - ranking_score r) rankings)))"

text \<open>
  \<open>ORDER BY population DESC\<close>: largest first, rows without a population last
  (\<open>NULLS LAST\<close> is what SQLite does in descending order anyway); rows with the same
  population are kept in table order.
\<close>

definition by_population_desc :: "city list \<Rightarrow> city list" where
  "by_population_desc rows =
     map snd (sort_key (\<lambda>(p, row). - p) (List.map_filter (\<lambda>row. map_option (\<lambda>p. (p, row)) (population row)) rows))
     @ filter (\<lambda>row. population row = None) rows"

definition population_row :: "city \<Rightarrow> ranking" where
  "population_row row = ByPopulation (city_name row) (country row) (population row)"

text \<open>
  The class body defines \<open>rank_cities_advanced\<close> twice. Python binds the name to the
  definition that comes last (lines 341 to 352), which is therefore the method every call
  reaches:
  \<^verbatim>\<open>
  def rank_cities_advanced(self, weights, country, limit=5):
      """Ranks cities. If weights are empty, ranks by population."""
      if not weights:
          SELECT city_name, country, population as score FROM cities
          WHERE country = ? ORDER BY population DESC LIMIT ?
          return [{"city_name": r[0], "country": r[1], "score": r[2]} ...]
      return self.rank_cities(weights, limit=limit, country_filter=country)
  \<close>
\<close>

definition rank_cities_advanced :: "store \<Rightarrow> (string \<times> real) list \<Rightarrow> string \<Rightarrow> int \<Rightarrow> py_error + ranking list" where
  "rank_cities_advanced db weights ctry limit =
     (if weights = []
      then Inr (map population_row
                  (sql_limit limit (by_population_desc (filter (\<lambda>row. country row = Some ctry) (cities db)))))
      else rank_cities db weights limit (Some ctry))"

text \<open>
  The first definition (lines 199 to 225), which the second one replaces. It is the one
  with the check for data and the recursive fallback:
  \<^verbatim>\<open>
  def rank_cities_advanced(self, weights, country, limit=5):
      if not weights:
          SELECT city_name, country, population FROM cities WHERE UPPER(country) = UPPER(?)
          ORDER BY population DESC NULLS LAST LIMIT ?
          return [...]
      # Check if any cities in country have data for at least one criterion
      SELECT 1 FROM indicators i JOIN cities c ON i.city_code = c.city_code
      WHERE UPPER(c.country) = UPPER(?) AND i.indicator_code IN (<the keys of weights>) LIMIT 1
      has_data = cursor.fetchone() is not None
      if not has_data:
          return self.rank_cities_advanced({}, country, limit)  # Recursive fallback
      return self.rank_cities(weights, limit=limit, country_filter=country)
  \<close>
  Read on its own, the recursive call has empty weights and returns from the first branch;
  the model writes that branch out.
\<close>

definition in_country :: "string \<Rightarrow> city \<Rightarrow> bool" where
  "in_country ctry row = (case country row of None \<Rightarrow> False | Some c \<Rightarrow> upper c = upper ctry)"

definition has_data :: "store \<Rightarrow> (string \<times> real) list \<Rightarrow> string \<Rightarrow> bool" where
  "has_data db weights ctry =
     list_ex (\<lambda>i. indicator_code i \<in> set (map fst weights)
                 \<and> list_ex (\<lambda>c. city_code c = obs_city_code i \<and> in_country ctry c) (cities db))
       (indicators db)"

definition population_fallback :: "store \<Rightarrow> string \<Rightarrow> int \<Rightarrow> ranking list" where
  "population_fallback db ctry limit =
     map population_row (sql_limit limit (by_population_desc (filter (in_country ctry) (cities db))))"

definition rank_cities_advanced_first :: "store \<Rightarrow> (string \<times> real) list \<Rightarrow> string \<Rightarrow> int \<Rightarrow> py_error + ranking list" where
  "rank_cities_advanced_first db weights ctry limit =
     (if weights = [] then Inr (population_fallback db ctry limit)
      else if \<not> has_data db weights ctry then Inr (population_fallback db ctry limit)
      else rank_cities db weights limit (Some ctry))"

text \<open>
  \<^verbatim>\<open>
  def list_cities(self, country=None):
      if country:
          SELECT city_code, city_name, country, population, lat, lng FROM cities
          WHERE UPPER(country) = UPPER(?) ORDER BY city_name
      else:
          SELECT ... FROM cities ORDER BY city_name
  \<close>
  \<open>ORDER BY city_name\<close> compares text byte by byte, \<open>NULL\<close> first; rows with the same name
  are kept in table order.
\<close>

definition list_cities :: "store \<Rightarrow> string option \<Rightarrow> city list" where
  "list_cities db ctry =
     sort_key city_name
       (case ctry of
          None \<Rightarrow> cities db
        | Some f \<Rightarrow> if f = [] then cities db else filter (in_country f) (cities db))"

section \<open>Concrete inputs\<close>

text \<open>
  The cube of the scenario of section 8 (one city \<open>FR001C\<close>, one indicator \<open>TT1\<close>, the
  year 2020, the value 42), with a status map as the cube format has it: keyed by the flat
  index as text.
\<close>

definition paris_cube :: cube where
  "paris_cube =
     \<lparr>cube_id = [''cities'', ''indic_ur'', ''time''], cube_size = [1, 1, 1],
      cube_dimension =
        [(''cities'', \<lparr>cat_index = [(''FR001C'', 0)], cat_label = [(''FR001C'', ''Paris'')]\<rparr>),
         (''indic_ur'', \<lparr>cat_index = [(''TT1'', 0)], cat_label = [(''TT1'', ''Population'')]\<rparr>),
         (''time'', \<lparr>cat_index = [(''2020'', 0)], cat_label = [(''2020'', ''2020'')]\<rparr>)],
      cube_value = [Some 42], cube_status = [(KStr ''0'', ''e'')]\<rparr>"

text \<open>A cube with a city dimension only, which declares two cells and carries three values.\<close>

definition long_cube :: cube where
  "long_cube =
     \<lparr>cube_id = [''cities''], cube_size = [2],
      cube_dimension =
        [(''cities'', \<lparr>cat_index = [(''FR001C'', 0), (''FR002C'', 1)], cat_label = []\<rparr>)],
      cube_value = [Some 1, Some 2, Some 3], cube_status = []\<rparr>"

definition empty_store :: store where
  "empty_store = \<lparr>cities = [], indicators = []\<rparr>"

text \<open>
  A store as \<open>ingest_csv\<close> fills it from the gazetteer: three French cities with the
  gazetteer's ids as codes, the country by its name, and no observations.
\<close>

definition gazetteer :: store where
  "gazetteer =
     \<lparr>cities =
        [\<lparr>city_code = ''1250015082'', city_name = Some ''Paris'', country = Some ''France'',
          lat = Some 48.8567, lng = Some 2.3522, population = Some 11060000\<rparr>,
         \<lparr>city_code = ''1250196189'', city_name = Some ''Lyon'', country = Some ''France'',
          lat = Some 45.76, lng = Some 4.84, population = None\<rparr>,
         \<lparr>city_code = ''1250774071'', city_name = Some ''Marseille'', country = Some ''France'',
          lat = Some 43.2964, lng = Some 5.37, population = Some 873076\<rparr>],
      indicators = []\<rparr>"

text \<open>A cube with one observation of an indicator whose value is negative.\<close>

definition migration_cube :: cube where
  "migration_cube =
     \<lparr>cube_id = [''cities'', ''indic_ur'', ''time''], cube_size = [1, 1, 1],
      cube_dimension =
        [(''cities'', \<lparr>cat_index = [(''FR001C'', 0)], cat_label = [(''FR001C'', ''Paris'')]\<rparr>),
         (''indic_ur'', \<lparr>cat_index = [(''MIG'', 0)], cat_label = [(''MIG'', ''Net migration'')]\<rparr>),
         (''time'', \<lparr>cat_index = [(''2020'', 0)], cat_label = [(''2020'', ''2020'')]\<rparr>)],
      cube_value = [Some (- 50000)], cube_status = []\<rparr>"

text \<open>A cube whose only entity code is the bare marker \<open>C\<close>, without a time dimension.\<close>

definition bare_cube :: cube where
  "bare_cube =
     \<lparr>cube_id = [''cities'', ''indic_ur''], cube_size = [1, 1],
      cube_dimension =
        [(''cities'', \<lparr>cat_index = [(''C'', 0)], cat_label = []\<rparr>),
         (''indic_ur'', \<lparr>cat_index = [(''TT1'', 0)], cat_label = []\<rparr>)],
      cube_value = [Some 1], cube_status = []\<rparr>"

text \<open>
  A cube with two entity codes, of which \<open>XX001\<close> lacks the marker, one indicator and two
  years; and the cube of one city, one indicator and no time dimension, with a given value.
\<close>

definition mixed_cube :: cube where
  "mixed_cube =
     \<lparr>cube_id = [''cities'', ''indic_ur'', ''time''], cube_size = [2, 1, 2],
      cube_dimension =
        [(''cities'', \<lparr>cat_index = [(''FR001C'', 0), (''XX001'', 1)], cat_label = [(''FR001C'', ''Paris'')]\<rparr>),
         (''indic_ur'', \<lparr>cat_index = [(''TT1'', 0)], cat_label = [(''TT1'', ''Population'')]\<rparr>),
         (''time'', \<lparr>cat_index = [(''2019'', 0), (''2020'', 1)], cat_label = []\<rparr>)],
      cube_value = [Some 1, None, Some 3, Some 4], cube_status = []\<rparr>"

definition timeless_cube :: "real \<Rightarrow> cube" where
  "timeless_cube v =
     \<lparr>cube_id = [''cities'', ''indic_ur''], cube_size = [1, 1],
      cube_dimension =
        [(''cities'', \<lparr>cat_index = [(''FR001C'', 0)], cat_label = [(''FR001C'', ''Paris'')]\<rparr>),
         (''indic_ur'', \<lparr>cat_index = [(''TT1'', 0)], cat_label = [(''TT1'', ''Population'')]\<rparr>)],
      cube_value = [Some v], cube_status = []\<rparr>"

text \<open>The city and the observation rows that ingesting the cubes above writes.\<close>

definition paris :: city where
  "paris = \<lparr>city_code = ''FR001C'', city_name = Some ''Paris'', country = Some ''FR'',
             lat = None, lng = None, population = None\<rparr>"

definition paris_row :: "int option \<Rightarrow> real \<Rightarrow> observation" where
  "paris_row y v = \<lparr>obs_city_code = ''FR001C'', indicator_code = ''TT1'', indicator_name = Some ''Population'',
                    year = y, obs_value = Some v, status = ''''\<rparr>"

text \<open>The store after ingesting the cube of the scenario with the value 42000.\<close>

definition paris_store :: store where
  "paris_store = \<lparr>cities = [paris], indicators = [paris_row (Some 2020) 42000]\<rparr>"

text \<open>
  A store with several years for an indicator, in both table orders: \<open>TT1\<close> is a cost of 25
  in 2020, written before its row of 2019; \<open>TT2\<close> is a percentage of 40 in 2018 and 80 in
  2021; \<open>TT3\<close> has the value 5 in 2019 and \<open>NULL\<close> in 2020.
\<close>

definition two_years :: store where
  "two_years =
     \<lparr>cities = [paris],
      indicators =
        [(paris_row (Some 2020) 25)\<lparr>indicator_name := Some ''Cost in EUR''\<rparr>,
         paris_row (Some 2019) 1000,
         (paris_row (Some 2018) 40)\<lparr>indicator_code := ''TT2'', indicator_name := Some ''Green area (%)''\<rparr>,
         (paris_row (Some 2021) 80)\<lparr>indicator_code := ''TT2'', indicator_name := Some ''Green area (%)''\<rparr>,
         (paris_row (Some 2019) 5)\<lparr>indicator_code := ''TT3''\<rparr>,
         (paris_row (Some 2020) 0)\<lparr>indicator_code := ''TT3'', obs_value := None\<rparr>]\<rparr>"

section \<open>Notions the properties are stated with\<close>

text \<open>
  The entity code role resolution finds in a record, and the records the resolver skips:
  no field name ends with \<open>ies\<close>, or the code is empty or does not end with \<open>C\<close>.
\<close>

definition entity_code :: "flat_record \<Rightarrow> string option" where
  "entity_code r =
     (case first_key (\<lambda>k. endswith k ''ies'') r of
        None \<Rightarrow> None
      | Some city_key \<Rightarrow> map_of (rec_fields r) city_key)"

definition is_skipped :: "flat_record \<Rightarrow> bool" where
  "is_skipped r = (case entity_code r of None \<Rightarrow> True | Some code \<Rightarrow> code = [] \<or> \<not> endswith code ''C'')"

text \<open>A city row as ingestion writes it: the country is derived from the code.\<close>

definition derived_city :: "city \<Rightarrow> bool" where
  "derived_city x = (endswith (city_code x) ''C'' \<and> country x = Some (upper (take 2 (city_code x))))"

text \<open>
  The key of the uniqueness constraint, the rows of one key with a year, and the
  constraint as a property of the table: no two rows with a year share their key.
\<close>

definition triple :: "observation \<Rightarrow> string \<times> string \<times> int option" where
  "triple row = (obs_city_code row, indicator_code row, year row)"

definition triple_rows :: "store \<Rightarrow> string \<Rightarrow> string \<Rightarrow> int \<Rightarrow> observation list" where
  "triple_rows db code icode y = filter (\<lambda>row. triple row = (code, icode, Some y)) (indicators db)"

definition unique_triples :: "store \<Rightarrow> bool" where
  "unique_triples db = distinct (map triple (filter (\<lambda>row. year row \<noteq> None) (indicators db)))"

text \<open>
  The observation the loop body of \<open>store_data\<close> writes for a record, if it writes one,
  and the records that write a given key.
\<close>

definition written :: "flat_record \<Rightarrow> observation option" where
  "written r =
     (if is_skipped r then None
      else
        (case (entity_code r, first_key (\<lambda>k. startswith k ''indic'') r, read_year r) of
           (Some code, Some indic_key, Inr y) \<Rightarrow>
             (case map_of (rec_fields r) indic_key of
                None \<Rightarrow> None
              | Some icode \<Rightarrow>
                  if \<not> sqlite_integer y then None
                  else
                    Some \<lparr>obs_city_code = code, indicator_code = icode,
                          indicator_name = map_of (rec_fields r) (indic_key @ ''_label''),
                          year = y, obs_value = rec_value r, status = rec_status r\<rparr>)
         | _ \<Rightarrow> None))"

definition writes_to :: "string \<Rightarrow> string \<Rightarrow> int \<Rightarrow> flat_record \<Rightarrow> bool" where
  "writes_to code icode y r =
     (case written r of None \<Rightarrow> False | Some row \<Rightarrow> triple row = (code, icode, Some y))"

text \<open>
  The score as section 4.6 describes it, written from the specification and not from the
  code. The latest observation of an entity and indicator is the row of that pair with
  the greatest year (SQLite puts a row without a year below every year; of rows that
  agree in the year the one inserted last is taken, see \<open>latest_value\<close>); it is found by
  one pass over the rows that keeps the best row so far.
\<close>

fun latest_of :: "observation list \<Rightarrow> observation option" where
  "latest_of [] = None"
| "latest_of (row # rows) =
     (case latest_of rows of
        None \<Rightarrow> Some row
      | Some best \<Rightarrow> if year best < year row then Some row else Some best)"

definition latest_observation :: "store \<Rightarrow> string \<Rightarrow> string \<Rightarrow> observation option" where
  "latest_observation db code icode =
     latest_of (filter (\<lambda>row. obs_city_code row = code \<and> indicator_code row = icode) (indicators db))"

text \<open>
  Polarity (section 4.5): lower is better when the name holds, in any letter case, one of
  the keywords for vehicle ownership, fatalities and accidents, cost, time and duration,
  and currency. The value that enters the score is the normalized value of the rule
  table, inverted to \<open>1 - normalized\<close> when lower is better.
\<close>

definition polarity_keywords :: "string list" where
  "polarity_keywords =
     [''car'', ''motor cycle'', ''death'', ''accident'', ''cost'', ''time'', ''minutes'', ''eur'']"

definition lower_is_better_spec :: "string \<Rightarrow> bool" where
  "lower_is_better_spec name = list_ex (\<lambda>keyword. occurs_ignoring_case keyword name) polarity_keywords"

definition adjusted_spec :: "real \<Rightarrow> string \<Rightarrow> real" where
  "adjusted_spec v name =
     (if lower_is_better_spec name then 1 - normalize_spec v name else normalize_spec v name)"

text \<open>
  An entry of the weight map contributes when the latest observation of its indicator
  exists and has a value; it contributes the adjusted value of that observation. The
  numerator and the denominator are the sums over the contributing entries. A store is
  named when every observation has a name.
\<close>

definition latest_data :: "store \<Rightarrow> string \<Rightarrow> string \<Rightarrow> (real \<times> string option) option" where
  "latest_data db code icode =
     (case latest_observation db code icode of
        None \<Rightarrow> None
      | Some row \<Rightarrow> (case obs_value row of None \<Rightarrow> None | Some v \<Rightarrow> Some (v, indicator_name row)))"

definition contributes :: "store \<Rightarrow> string \<Rightarrow> string \<times> real \<Rightarrow> bool" where
  "contributes db code kw = (latest_data db code (fst kw) \<noteq> None)"

definition contribution :: "store \<Rightarrow> string \<Rightarrow> string \<Rightarrow> real" where
  "contribution db code icode =
     (case latest_data db code icode of Some (v, Some name) \<Rightarrow> adjusted_spec v name | _ \<Rightarrow> 0)"

definition numerator :: "store \<Rightarrow> string \<Rightarrow> (string \<times> real) list \<Rightarrow> real" where
  "numerator db code weights =
     sum_list (map (\<lambda>kw. contribution db code (fst kw) * snd kw) (filter (contributes db code) weights))"

definition denominator :: "store \<Rightarrow> string \<Rightarrow> (string \<times> real) list \<Rightarrow> real" where
  "denominator db code weights = sum_list (map snd (filter (contributes db code) weights))"

definition named :: "store \<Rightarrow> bool" where
  "named db = list_all (\<lambda>row. indicator_name row \<noteq> None) (indicators db)"

definition positive :: "(string \<times> real) list \<Rightarrow> bool" where
  "positive weights = list_all (\<lambda>kw. 0 < snd kw) weights"

text \<open>A status map as a JSON document gives it: every key is text.\<close>

definition text_keyed :: "(pykey \<times> string) list \<Rightarrow> bool" where
  "text_keyed status_map = list_all (\<lambda>kv. case fst kv of KStr s \<Rightarrow> True | KInt i \<Rightarrow> False) status_map"

text \<open>A store without negative observations.\<close>

definition non_negative :: "store \<Rightarrow> bool" where
  "non_negative db =
     list_all (\<lambda>row. case obs_value row of None \<Rightarrow> True | Some v \<Rightarrow> 0 \<le> v) (indicators db)"

text \<open>An entry of the weight map whose latest observation has a value and no name.\<close>

definition unnamed :: "store \<Rightarrow> string \<Rightarrow> string \<times> real \<Rightarrow> bool" where
  "unnamed db code kw = (case latest_data db code (fst kw) of Some (v, None) \<Rightarrow> True | _ \<Rightarrow> False)"

text \<open>The names of the entries the decoder writes for a list of dimensions.\<close>

definition field_names :: "string list \<Rightarrow> string list" where
  "field_names dims = concat (map (\<lambda>d. [d, d @ ''_label'']) dims)"

text \<open>
  Letter case beyond ASCII, to state what \<open>UPPER\<close> does not do. In UTF-8 the capital
  letters of Latin-1 (\<open>U+00C0\<close> to \<open>U+00DE\<close> without the multiplication sign \<open>U+00D7\<close>) are
  the byte \<open>C3\<close> followed by a byte from \<open>80\<close> to \<open>9E\<close>; the small letter is 32 higher in
  the second byte. \<open>fold_case\<close> maps these and the ASCII capitals to their small letters.
\<close>

fun fold_case :: "string \<Rightarrow> string" where
  "fold_case [] = []"
| "fold_case [c] = [lower_char c]"
| "fold_case (c # d # cs) =
     (if c = CHR 0xC3 \<and> 128 \<le> (of_char d :: nat) \<and> (of_char d :: nat) \<le> 158 \<and> d \<noteq> CHR 0x97
      then c # char_of (of_char d + 32 :: nat) # fold_case cs
      else lower_char c # fold_case (d # cs))"

text \<open>
  A gazetteer row whose country has a letter outside ASCII: Reunion, spelt with an acute
  accent on its first \<open>e\<close>, which is the bytes \<open>C3 A9\<close>; and that name in capitals, where
  the letter is the bytes \<open>C3 89\<close>.
\<close>

definition reunion_name :: string where
  "reunion_name = [CHR ''R'', CHR 0xC3, CHR 0xA9] @ ''union''"

definition reunion_capitals :: string where
  "reunion_capitals = [CHR ''R'', CHR 0xC3, CHR 0x89] @ ''UNION''"

definition saint_denis :: city where
  "saint_denis = \<lparr>city_code = ''1638024662'', city_name = Some ''Saint-Denis'', country = Some reunion_name,
                   lat = Some (- 20.8789), lng = Some 55.4481, population = Some 190047\<rparr>"

definition reunion :: store where
  "reunion = \<lparr>cities = [saint_denis], indicators = []\<rparr>"


section \<open>Substring search\<close>

lemma startswith_iff: "startswith s p \<longleftrightarrow> (\<exists>vs. s = p @ vs)"
  by (induction s p rule: startswith.induct) auto

lemma contains_iff: "contains sub s \<longleftrightarrow> (\<exists>us vs. s = us @ sub @ vs)"
proof (induction s)
  case Nil
  then show ?case by auto
next
  case (Cons c cs)
  show ?case
  proof
    assume "contains sub (c # cs)"
    then consider "startswith (c # cs) sub" | "contains sub cs" by auto
    then show "\<exists>us vs. c # cs = us @ sub @ vs"
    proof cases
      case 1
      then obtain vs where "c # cs = sub @ vs" by (auto simp: startswith_iff)
      then have "c # cs = [] @ sub @ vs" by simp
      then show ?thesis by blast
    next
      case 2
      then obtain us vs where "cs = us @ sub @ vs" using Cons.IH by auto
      then have "c # cs = (c # us) @ sub @ vs" by simp
      then show ?thesis by blast
    qed
  next
    assume "\<exists>us vs. c # cs = us @ sub @ vs"
    then obtain us vs where eq: "c # cs = us @ sub @ vs" by auto
    show "contains sub (c # cs)"
    proof (cases us)
      case Nil
      with eq have "startswith (c # cs) sub" unfolding startswith_iff by auto
      then show ?thesis by simp
    next
      case (Cons u us')
      with eq have "cs = us' @ sub @ vs" by simp
      then show ?thesis using Cons.IH by auto
    qed
  qed
qed

lemma lower_take_drop: "lower (take n (drop k s)) = take n (drop k (lower s))"
  by (simp add: lower_def take_map drop_map)

lemma occurs_ignoring_case_iff:
  "occurs_ignoring_case marker name \<longleftrightarrow> contains (lower marker) (lower name)"
proof
  assume "occurs_ignoring_case marker name"
  then obtain k where k: "take (length marker) (drop k (lower name)) = lower marker"
    unfolding occurs_ignoring_case_def list_ex_iff lower_take_drop by blast
  have "lower name = take k (lower name) @ drop k (lower name)" by simp
  also have "drop k (lower name) =
      take (length marker) (drop k (lower name)) @ drop (length marker) (drop k (lower name))"
    by (simp only: append_take_drop_id)
  finally have "lower name = take k (lower name) @ lower marker @ drop (length marker) (drop k (lower name))"
    using k by simp
  then show "contains (lower marker) (lower name)"
    unfolding contains_iff by blast
next
  assume "contains (lower marker) (lower name)"
  then obtain us vs where eq: "lower name = us @ lower marker @ vs"
    unfolding contains_iff by blast
  have len: "length (lower marker) = length marker" "length (lower name) = length name"
    by (simp_all add: lower_def)
  from eq have "length us \<le> length name" using len by (metis length_append le_add1)
  moreover from eq have "take (length marker) (drop (length us) (lower name)) = lower marker"
    using len by simp
  ultimately have "\<exists>k\<in>set [0..<Suc (length name)].
      take (length marker) (drop k (lower name)) = lower marker"
    by (intro bexI [where x = "length us"]) auto
  then show "occurs_ignoring_case marker name"
    unfolding occurs_ignoring_case_def list_ex_iff lower_take_drop .
qed

lemma occurs_ignoring_case_substring:
  "occurs_ignoring_case marker name \<longleftrightarrow> (\<exists>us w vs. name = us @ w @ vs \<and> lower w = lower marker)"
proof
  assume "occurs_ignoring_case marker name"
  then obtain k where k: "lower (take (length marker) (drop k name)) = lower marker"
    unfolding occurs_ignoring_case_def list_ex_iff by blast
  have "name = take k name @ take (length marker) (drop k name) @ drop (length marker) (drop k name)"
    by (simp only: append_take_drop_id)
  with k show "\<exists>us w vs. name = us @ w @ vs \<and> lower w = lower marker" by blast
next
  assume "\<exists>us w vs. name = us @ w @ vs \<and> lower w = lower marker"
  then obtain us w vs where eq: "name = us @ w @ vs" and w: "lower w = lower marker" by blast
  then have "lower name = lower us @ lower marker @ lower vs" by (simp add: lower_def)
  then show "occurs_ignoring_case marker name"
    unfolding occurs_ignoring_case_iff contains_iff by blast
qed

section \<open>Letter case\<close>

lemma of_char_lt_256: "of_char c < (256::nat)"
proof -
  have "(of_char c :: nat) mod 256 = of_char c" by (rule of_char_mod_256)
  moreover have "(of_char c :: nat) mod 256 < 256" by simp
  ultimately show ?thesis by simp
qed

lemma of_char_char_of_small: "n < 256 \<Longrightarrow> of_char (char_of n :: char) = (n::nat)"
  by (simp add: of_char_of)

lemma of_char_lower_char:
  "(of_char (lower_char c) :: nat) = (if 65 \<le> (of_char c :: nat) \<and> (of_char c :: nat) \<le> 90 then of_char c + 32 else of_char c)"
proof (cases "65 \<le> (of_char c :: nat) \<and> (of_char c :: nat) \<le> 90")
  case True
  then have "(of_char c :: nat) + 32 < 256" by linarith
  then have "of_char (char_of (of_char c + 32 :: nat) :: char) = (of_char c + 32 :: nat)"
    by (rule of_char_char_of_small)
  moreover have "lower_char c = char_of (of_char c + 32 :: nat)"
    unfolding lower_char_def Let_def using True by (simp only: simp_thms if_True)
  ultimately show ?thesis using True by (simp only: simp_thms if_True)
next
  case False
  then have "lower_char c = c" unfolding lower_char_def Let_def by (simp only: if_False)
  then show ?thesis using False by (simp only: simp_thms if_False)
qed

lemma of_char_upper_char:
  "(of_char (upper_char c) :: nat) = (if 97 \<le> (of_char c :: nat) \<and> (of_char c :: nat) \<le> 122 then of_char c - 32 else of_char c)"
proof (cases "97 \<le> (of_char c :: nat) \<and> (of_char c :: nat) \<le> 122")
  case True
  then have "(of_char c :: nat) - 32 < 256" by linarith
  then have "of_char (char_of (of_char c - 32 :: nat) :: char) = (of_char c - 32 :: nat)"
    by (rule of_char_char_of_small)
  moreover have "upper_char c = char_of (of_char c - 32 :: nat)"
    unfolding upper_char_def Let_def using True by (simp only: simp_thms if_True)
  ultimately show ?thesis using True by (simp only: simp_thms if_True)
next
  case False
  then have "upper_char c = c" unfolding upper_char_def Let_def by (simp only: if_False)
  then show ?thesis using False by (simp only: simp_thms if_False)
qed

lemma lower_char_upper_char:
  assumes "lower_char a = lower_char b"
  shows "upper_char a = upper_char b"
proof -
  define m n :: nat where "m = of_char a" and "n = of_char b"
  from assms have "(of_char (lower_char a) :: nat) = of_char (lower_char b)" by (rule arg_cong)
  then have "(if 65 \<le> m \<and> m \<le> 90 then m + 32 else m) = (if 65 \<le> n \<and> n \<le> 90 then n + 32 else n)"
    unfolding of_char_lower_char m_def n_def .
  then have "(if 97 \<le> m \<and> m \<le> 122 then m - 32 else m) = (if 97 \<le> n \<and> n \<le> 122 then n - 32 else n)"
    by (auto split: if_splits)
  then have "(of_char (upper_char a) :: nat) = of_char (upper_char b)"
    unfolding of_char_upper_char m_def n_def .
  then show ?thesis by (simp only: of_char_eq_iff)
qed

lemma lower_upper: "lower s = lower t \<Longrightarrow> upper s = upper t"
proof (induction s arbitrary: t)
  case Nil
  then show ?case by (simp add: lower_def upper_def)
next
  case (Cons a s)
  from Cons.prems obtain b t' where t: "t = b # t'" by (cases t) (simp_all add: lower_def)
  from Cons.prems have "lower_char a = lower_char b" and "lower s = lower t'"
    unfolding t lower_def by (simp_all only: list.map list.inject)
  then have "upper_char a = upper_char b" and "upper s = upper t'"
    using Cons.IH lower_char_upper_char by blast+
  then show ?case unfolding t upper_def by (simp only: list.map)
qed

section \<open>Properties of the normalizer\<close>

lemma unit_markers_lower:
  "lower ''%'' = ''%''" "lower ''minutes'' = ''minutes''" "lower ''km'' = ''km''"
  "lower ''eur'' = ''eur''" "lower ''per 1000'' = ''per 1000''"
  by code_simp+

lemma normalize_value_eq_spec: "normalize_value v name = normalize_spec v name"
  unfolding normalize_value_def normalize_spec_def unit_rules_def Let_def first_match.simps
    occurs_ignoring_case_iff unit_markers_lower
  by simp

lemma normalize_value_mono: "v \<le> w \<Longrightarrow> normalize_value v name \<le> normalize_value w name"
  unfolding normalize_value_def Let_def
  by (auto simp: min_def)

lemma normalize_value_range: "0 \<le> v \<Longrightarrow> 0 \<le> normalize_value v name \<and> normalize_value v name \<le> 1"
  unfolding normalize_value_def Let_def
  by (auto simp: min_def)

text \<open>
  Claim C8. \<open>_normalize_value\<close> applies the first matching rule of the fixed table
  (percent: /100, minutes: /60, km: /50, eur: /100, per 1000: /1000, otherwise /100000),
  each capped at 1, where a marker matches when it occurs in the name as a substring in
  any letter case. It is monotone in the value, and lies in [0, 1] for a non-negative value.
\<close>

theorem normalize_value_first_match:
  "normalize_value v name = normalize_spec v name
   \<and> (\<forall>marker. occurs_ignoring_case marker name \<longleftrightarrow> (\<exists>us w vs. name = us @ w @ vs \<and> lower w = lower marker))
   \<and> (\<forall>w. v \<le> w \<longrightarrow> normalize_value v name \<le> normalize_value w name)
   \<and> (0 \<le> v \<longrightarrow> 0 \<le> normalize_value v name \<and> normalize_value v name \<le> 1)"
  using normalize_value_eq_spec occurs_ignoring_case_substring normalize_value_mono normalize_value_range
  by blast

theorem normalize_value_first_match_witness:
  "normalize_value 30 ''Distance (KM)'' = 3 / 5
   \<and> normalize_spec 30 ''Distance (KM)'' = 3 / 5
   \<and> (30::real) \<le> 80 \<and> normalize_value 30 ''Distance (KM)'' \<le> normalize_value 80 ''Distance (KM)''
   \<and> normalize_value 80 ''Distance (KM)'' = 1
   \<and> (0::real) \<le> 30 \<and> 0 \<le> normalize_value 30 ''Distance (KM)''"
proof -
  have a: "normalize_spec 30 ''Distance (KM)'' = 3 / 5" by code_simp
  have b: "normalize_value 80 ''Distance (KM)'' = 1" by code_simp
  have c: "(30::real) \<le> 80" "(0::real) \<le> 30" by simp_all
  from normalize_value_first_match [of 30 "''Distance (KM)''"] a b c show ?thesis
    by (simp del: contains.simps)
qed

section \<open>Properties of the coordinate decoder\<close>

lemma coords_loop_digits:
  "0 \<notin> set ss \<Longrightarrow> coords_loop i ss acc = Inr (acc @ digits i ss)"
  by (induction ss arbitrary: i acc) auto

lemma coords_loop_zero:
  "0 \<in> set ss \<Longrightarrow> coords_loop i ss acc = Inl ZeroDivisionError"
  by (induction ss arbitrary: i acc) auto

lemma index_to_coords_digits:
  "0 \<notin> set sizes \<Longrightarrow> index_to_coords i sizes = Inr (rev (digits i (rev sizes)))"
  by (simp add: index_to_coords_def coords_loop_digits)

lemma length_digits: "length (digits i ss) = length ss"
  by (induction ss arbitrary: i) auto

lemma digits_snoc_rev:
  "rev (digits i (rev (ss @ [s]))) = rev (digits (i div s) (rev ss)) @ [i mod s]"
  by simp

lemma coords_to_index_snoc:
  "length cs = length ss \<Longrightarrow> coords_to_index (cs @ [c]) (ss @ [s]) = coords_to_index cs ss * s + c"
  by (simp add: coords_to_index_def)

lemma prod_list_pos: "list_all (\<lambda>s. 0 < s) ss \<Longrightarrow> 0 < prod_list (ss :: int list)"
  by (induction ss) auto

lemma decode_props:
  "list_all (\<lambda>s. 0 < s) sizes \<Longrightarrow> 0 \<le> i \<Longrightarrow> i < prod_list sizes \<Longrightarrow>
     (\<forall>j<length sizes. rev (digits i (rev sizes)) ! j = (i div prod_list (drop (Suc j) sizes)) mod sizes ! j)
     \<and> coords_to_index (rev (digits i (rev sizes))) sizes = i"
proof (induction sizes arbitrary: i rule: rev_induct)
  case Nil
  then show ?case by (simp add: coords_to_index_def)
next
  case (snoc s ss)
  from snoc.prems have s: "0 < s" and ss: "list_all (\<lambda>s. 0 < s) ss" by auto
  have pos: "0 < prod_list ss" using ss by (rule prod_list_pos)
  from snoc.prems have lt: "i < prod_list ss * s" by simp
  have i': "0 \<le> i div s" using snoc.prems s by (simp add: pos_imp_zdiv_nonneg_iff)
  have "i div s < prod_list ss"
  proof -
    have "0 \<le> i mod s" using s by simp
    moreover have "i div s * s + i mod s = i" by simp
    ultimately have "i div s * s \<le> i" by linarith
    with lt have "i div s * s < prod_list ss * s" by linarith
    then show ?thesis using s by (simp add: mult_less_cancel_right)
  qed
  note IH = snoc.IH [OF ss i' this]
  let ?cs = "rev (digits (i div s) (rev ss))"
  have len: "length ?cs = length ss" by (simp add: length_digits)
  have rt: "coords_to_index (?cs @ [i mod s]) (ss @ [s]) = i"
    using IH len by (simp add: coords_to_index_snoc)
  have nth: "(?cs @ [i mod s]) ! j = (i div prod_list (drop (Suc j) (ss @ [s]))) mod (ss @ [s]) ! j"
    if "j < length (ss @ [s])" for j
  proof (cases "j < length ss")
    case True
    have "0 \<le> prod_list (drop (Suc j) ss)"
      using ss by (intro less_imp_le prod_list_pos) (auto simp: list_all_iff dest: in_set_dropD)
    then have "i div (s * prod_list (drop (Suc j) ss)) = (i div s) div prod_list (drop (Suc j) ss)"
      using s by (simp add: zdiv_zmult2_eq)
    with True IH len show ?thesis
      by (simp add: nth_append mult.commute)
  next
    case False
    with that have "j = length ss" by simp
    then show ?thesis using len by (simp add: nth_append)
  qed
  show ?case
    unfolding digits_snoc_rev using rt nth by blast
qed

text \<open>
  Claim C5. For positive sizes and a flat index \<open>i\<close> with \<open>0 \<le> i < \<Prod>sizes\<close> the decoder
  returns one coordinate per dimension, in the order of the dimensions, the last dimension
  varying fastest (coordinate \<open>j\<close> is \<open>i\<close> divided by the product of the later sizes, modulo
  size \<open>j\<close>); every coordinate lies in \<open>[0, sizes[j])\<close>, and encoding the coordinates again
  gives \<open>i\<close>.
\<close>

theorem index_to_coords_round_trip:
  assumes "list_all (\<lambda>s. 0 < s) sizes" and "0 \<le> i" and "i < prod_list sizes"
  shows "\<exists>coords. index_to_coords i sizes = Inr coords
           \<and> length coords = length sizes
           \<and> (\<forall>j<length sizes. 0 \<le> coords ! j \<and> coords ! j < sizes ! j
                 \<and> coords ! j = (i div prod_list (drop (Suc j) sizes)) mod sizes ! j)
           \<and> coords_to_index coords sizes = i"
proof -
  have nz: "0 \<notin> set sizes" using assms(1) by (auto simp: list_all_iff)
  let ?cs = "rev (digits i (rev sizes))"
  have dec: "index_to_coords i sizes = Inr ?cs" using nz by (rule index_to_coords_digits)
  have len: "length ?cs = length sizes" by (simp add: length_digits)
  note props = decode_props [OF assms]
  have rng: "0 \<le> ?cs ! j \<and> ?cs ! j < sizes ! j" if "j < length sizes" for j
  proof -
    have "0 < sizes ! j" using assms(1) that by (simp add: list_all_length)
    moreover have "?cs ! j = (i div prod_list (drop (Suc j) sizes)) mod sizes ! j"
      using props that by blast
    ultimately show ?thesis by simp
  qed
  show ?thesis using dec len props rng by blast
qed

theorem index_to_coords_round_trip_witness:
  "list_all (\<lambda>s. 0 < s) [2, 3, 4 :: int] \<and> (0::int) \<le> 17 \<and> (17::int) < prod_list [2, 3, 4]
   \<and> index_to_coords 17 [2, 3, 4] = Inr [1, 1, 1]
   \<and> coords_to_index [1, 1, 1] [2, 3, 4] = 17"
proof -
  have h: "list_all (\<lambda>s. 0 < s) [2, 3, 4 :: int]" "(0::int) \<le> 17" "(17::int) < prod_list [2, 3, 4]"
    by simp_all
  have e: "index_to_coords 17 [2, 3, 4] = Inr [1, 1, 1]" by code_simp
  from index_to_coords_round_trip [OF h] e show ?thesis by auto
qed

lemma index_to_coords_length:
  "index_to_coords i sizes = Inr coords \<Longrightarrow> length coords = length sizes"
  by (cases "0 \<in> set sizes")
     (auto simp: index_to_coords_def coords_loop_zero coords_loop_digits length_digits)

lemma index_to_coords_error:
  "index_to_coords i sizes = Inl e \<Longrightarrow> e = ZeroDivisionError \<and> 0 \<in> set sizes"
  by (cases "0 \<in> set sizes")
     (auto simp: index_to_coords_def coords_loop_zero coords_loop_digits)

section \<open>Properties of the cube decoder\<close>

lemma dims_loop_returns:
  "i + length ds \<le> length coords \<Longrightarrow> \<exists>fs. dims_loop c coords i ds acc = Inr fs"
  by (induction ds arbitrary: i acc) (auto split: option.splits)

lemma dims_loop_error:
  "dims_loop c coords i ds acc = Inl e \<Longrightarrow> e = IndexError \<and> length coords < i + length ds"
proof (induction ds arbitrary: i acc)
  case Nil
  then show ?case by simp
next
  case (Cons d ds)
  show ?case
  proof (cases "length coords \<le> i")
    case True
    with Cons.prems show ?thesis by auto
  next
    case False
    with Cons.prems obtain acc' where "dims_loop c coords (Suc i) ds acc' = Inl e"
      by (auto split: option.splits)
    from Cons.IH [OF this] show ?thesis by simp
  qed
qed

lemma decode_cell_returns:
  assumes "0 \<notin> set (cube_size c)" and "length (cube_id c) \<le> length (cube_size c)"
  shows "\<exists>r. decode_cell c idx v = Inr r \<and> rec_value r = v"
proof -
  obtain coords where co: "index_to_coords (int idx) (cube_size c) = Inr coords"
    using assms(1) index_to_coords_digits by blast
  then have "length coords = length (cube_size c)" by (rule index_to_coords_length)
  with assms(2) have "0 + length (cube_id c) \<le> length coords" by simp
  from dims_loop_returns [OF this] obtain fs where "dims_loop c coords 0 (cube_id c) [] = Inr fs"
    by blast
  with co show ?thesis by (simp add: decode_cell_def)
qed

lemma decode_cell_value: "decode_cell c idx v = Inr r \<Longrightarrow> rec_value r = v"
  by (auto simp: decode_cell_def split: sum.splits)

lemma decode_cell_error:
  assumes "decode_cell c idx v = Inl e"
  shows "(e = ZeroDivisionError \<and> 0 \<in> set (cube_size c))
       \<or> (e = IndexError \<and> length (cube_size c) < length (cube_id c))"
proof (cases "index_to_coords (int idx) (cube_size c)")
  case (Inl e')
  with assms have "e' = e" by (simp add: decode_cell_def)
  with Inl index_to_coords_error show ?thesis by blast
next
  case (Inr coords)
  then have len: "length coords = length (cube_size c)" by (rule index_to_coords_length)
  from assms Inr have "dims_loop c coords 0 (cube_id c) [] = Inl e"
    by (auto simp: decode_cell_def split: sum.splits)
  from dims_loop_error [OF this] len show ?thesis by simp
qed

lemma cells_loop_returns:
  assumes "0 \<notin> set (cube_size c)" and "length (cube_id c) \<le> length (cube_size c)"
  shows "\<exists>rs. cells_loop c idx vs records = Inr (records @ rs) \<and> map rec_value rs = vs"
proof (induction vs arbitrary: idx records)
  case Nil
  then show ?case by simp
next
  case (Cons v vs)
  from decode_cell_returns [OF assms] obtain r where r: "decode_cell c idx v = Inr r" "rec_value r = v"
    by blast
  from Cons.IH [of "Suc idx" "records @ [r]"] obtain rs
    where "cells_loop c (Suc idx) vs (records @ [r]) = Inr ((records @ [r]) @ rs)" "map rec_value rs = vs"
    by blast
  with r have "cells_loop c idx (v # vs) records = Inr (records @ (r # rs)) \<and> map rec_value (r # rs) = v # vs"
    by simp
  then show ?case by (rule exI)
qed

lemma cells_loop_error:
  "cells_loop c idx vs records = Inl e \<Longrightarrow>
     (e = ZeroDivisionError \<and> 0 \<in> set (cube_size c))
     \<or> (e = IndexError \<and> length (cube_size c) < length (cube_id c))"
proof (induction vs arbitrary: idx records)
  case Nil
  then show ?case by simp
next
  case (Cons v vs)
  show ?case
  proof (cases "decode_cell c idx v")
    case (Inl e')
    with Cons.prems have "e' = e" by simp
    with Inl decode_cell_error show ?thesis by blast
  next
    case (Inr r)
    with Cons.prems have "cells_loop c (Suc idx) vs (records @ [r]) = Inl e" by simp
    then show ?thesis by (rule Cons.IH)
  qed
qed

text \<open>
  Claim C6 as stated fails: a cube that declares two cells and carries three values is
  decoded without an error, the third value under the coordinates of the first cell.
\<close>

theorem parse_jsonstat_no_shape_check:
  "prod_list (cube_size long_cube) \<noteq> int (length (cube_value long_cube))
   \<and> parse_jsonstat long_cube =
       Inr [\<lparr>rec_fields = [(''cities'', ''FR001C''), (''cities_label'', ''FR001C'')], rec_value = Some 1, rec_status = ''''\<rparr>,
            \<lparr>rec_fields = [(''cities'', ''FR002C''), (''cities_label'', ''FR002C'')], rec_value = Some 2, rec_status = ''''\<rparr>,
            \<lparr>rec_fields = [(''cities'', ''FR001C''), (''cities_label'', ''FR001C'')], rec_value = Some 3, rec_status = ''''\<rparr>]"
  by code_simp

text \<open>
  Claim C6, amended. The decoder has no shape check and no \<open>InvalidCubeShape\<close> error.
  Whatever the product of the sizes is: when no size is zero and there are at least as
  many sizes as dimension names, it returns one record per element of the value array,
  record \<open>idx\<close> with the value \<open>values[idx]\<close>; the only errors it raises are
  \<open>ZeroDivisionError\<close> (a size is zero) and \<open>IndexError\<close> (fewer sizes than dimension
  names).
\<close>

theorem parse_jsonstat_without_shape_check:
  "(0 \<notin> set (cube_size c) \<and> length (cube_id c) \<le> length (cube_size c) \<longrightarrow>
      (\<exists>records. parse_jsonstat c = Inr records
         \<and> length records = length (cube_value c) \<and> map rec_value records = cube_value c))
   \<and> (\<forall>e. parse_jsonstat c = Inl e \<longrightarrow>
        (e = ZeroDivisionError \<and> 0 \<in> set (cube_size c))
        \<or> (e = IndexError \<and> length (cube_size c) < length (cube_id c)))"
proof (intro conjI impI allI)
  assume "0 \<notin> set (cube_size c) \<and> length (cube_id c) \<le> length (cube_size c)"
  then obtain rs where rs: "cells_loop c 0 (cube_value c) [] = Inr ([] @ rs)" "map rec_value rs = cube_value c"
    using cells_loop_returns by blast
  then have "length rs = length (cube_value c)" by (metis length_map)
  with rs show "\<exists>records. parse_jsonstat c = Inr records
         \<and> length records = length (cube_value c) \<and> map rec_value records = cube_value c"
    by (simp add: parse_jsonstat_def)
next
  fix e assume "parse_jsonstat c = Inl e"
  then show "(e = ZeroDivisionError \<and> 0 \<in> set (cube_size c))
        \<or> (e = IndexError \<and> length (cube_size c) < length (cube_id c))"
    unfolding parse_jsonstat_def by (rule cells_loop_error)
qed

theorem parse_jsonstat_without_shape_check_witness:
  "prod_list (cube_size long_cube) \<noteq> int (length (cube_value long_cube))
   \<and> 0 \<notin> set (cube_size long_cube) \<and> length (cube_id long_cube) \<le> length (cube_size long_cube)
   \<and> (\<exists>records. parse_jsonstat long_cube = Inr records \<and> length records = 3)
   \<and> parse_jsonstat (long_cube\<lparr>cube_size := [0]\<rparr>) = Inl ZeroDivisionError
   \<and> parse_jsonstat (long_cube\<lparr>cube_size := []\<rparr>) = Inl IndexError"
proof -
  have h: "0 \<notin> set (cube_size long_cube) \<and> length (cube_id long_cube) \<le> length (cube_size long_cube)"
    by (simp add: long_cube_def)
  have n: "length (cube_value long_cube) = 3" "prod_list (cube_size long_cube) = 2"
    by (simp_all add: long_cube_def)
  have z: "parse_jsonstat (long_cube\<lparr>cube_size := [0]\<rparr>) = Inl ZeroDivisionError" by code_simp
  have x: "parse_jsonstat (long_cube\<lparr>cube_size := []\<rparr>) = Inl IndexError" by code_simp
  from parse_jsonstat_without_shape_check [of long_cube] h
  have "\<exists>records. parse_jsonstat long_cube = Inr records \<and> length records = length (cube_value long_cube)"
    by blast
  with h n z x show ?thesis by simp
qed

lemma text_keyed_lookup:
  "text_keyed status_map \<Longrightarrow> dict_get_default status_map (KInt i) [] = []"
proof -
  assume "text_keyed status_map"
  then have "map_of status_map (KInt i) = None"
    by (induction status_map) (auto simp: text_keyed_def split: pykey.splits)
  then show ?thesis by (simp add: dict_get_default_def)
qed

lemma decode_cell_text_keyed:
  "text_keyed (cube_status c) \<Longrightarrow> decode_cell c idx v = Inr r \<Longrightarrow> rec_status r = []"
  by (auto simp: decode_cell_def text_keyed_lookup split: sum.splits)

lemma cells_loop_text_keyed:
  "text_keyed (cube_status c) \<Longrightarrow> list_all (\<lambda>r. rec_status r = []) acc \<Longrightarrow>
     cells_loop c idx vs acc = Inr rs \<Longrightarrow> list_all (\<lambda>r. rec_status r = []) rs"
proof (induction vs arbitrary: idx acc)
  case Nil
  then show ?case by simp
next
  case (Cons v vs)
  from Cons.prems(3) obtain r where r: "decode_cell c idx v = Inr r"
    and rest: "cells_loop c (Suc idx) vs (acc @ [r]) = Inr rs"
    by (auto split: sum.splits)
  from decode_cell_text_keyed [OF Cons.prems(1) r] Cons.prems(2)
  have "list_all (\<lambda>r. rec_status r = []) (acc @ [r])" by simp
  from Cons.IH [OF Cons.prems(1) this rest] show ?case .
qed

lemma parse_jsonstat_text_keyed:
  "text_keyed (cube_status c) \<Longrightarrow> parse_jsonstat c = Inr rs \<Longrightarrow> list_all (\<lambda>r. rec_status r = []) rs"
  unfolding parse_jsonstat_def by (rule cells_loop_text_keyed [where acc = "[]"]) simp_all

lemma map_of_dict_set: "map_of (dict_set d k v) = (map_of d)(k \<mapsto> v)"
  by (induction d) (auto simp: fun_eq_iff)

lemma dims_loop_other:
  "dims_loop c coords i ds acc = Inr fs \<Longrightarrow> k \<notin> set (field_names ds) \<Longrightarrow> map_of fs k = map_of acc k"
proof (induction ds arbitrary: i acc)
  case Nil
  then show ?case by simp
next
  case (Cons d ds)
  from Cons.prems(2) have k: "k \<noteq> d" "k \<noteq> d @ ''_label''" "k \<notin> set (field_names ds)"
    by (auto simp: field_names_def)
  from Cons.prems(1) have le: "\<not> length coords \<le> i" by (auto split: if_splits)
  show ?case
  proof (cases "find (\<lambda>(key, val). val = coords ! i) (cat_index (category_of c d))")
    case None
    with Cons.prems(1) le have "dims_loop c coords (Suc i) ds acc = Inr fs" by simp
    from Cons.IH [OF this k(3)] show ?thesis .
  next
    case (Some kv)
    obtain key val where kv: "kv = (key, val)" by (cases kv)
    let ?acc = "dict_set (dict_set acc d key) (d @ ''_label'')
                  (dict_get_default (cat_label (category_of c d)) key key)"
    from Cons.prems(1) le Some kv have "dims_loop c coords (Suc i) ds ?acc = Inr fs" by simp
    from Cons.IH [OF this k(3)] have "map_of fs k = map_of ?acc k" .
    also have "\<dots> = map_of acc k" using k(1,2) by (simp add: map_of_dict_set)
    finally show ?thesis .
  qed
qed

lemma dims_loop_fields:
  assumes "dims_loop c coords i ds acc = Inr fs"
    and "distinct (field_names ds)"
    and "j < length ds"
    and "find (\<lambda>(key, val). val = coords ! (i + j)) (cat_index (category_of c (ds ! j))) = Some (key, val)"
  shows "map_of fs (ds ! j) = Some key
       \<and> map_of fs (ds ! j @ ''_label'') = Some (dict_get_default (cat_label (category_of c (ds ! j))) key key)"
  using assms
proof (induction ds arbitrary: i acc j)
  case Nil
  then show ?case by simp
next
  case (Cons d ds)
  from Cons.prems(1) have le: "\<not> length coords \<le> i" by (auto split: if_splits)
  from Cons.prems(2) have dist: "distinct (field_names ds)"
    and nd: "d \<notin> set (field_names ds)" "d @ ''_label'' \<notin> set (field_names ds)"
    by (auto simp: field_names_def)
  show ?case
  proof (cases j)
    case 0
    with Cons.prems(4) have f: "find (\<lambda>(key, val). val = coords ! i) (cat_index (category_of c d)) = Some (key, val)"
      by simp
    let ?acc = "dict_set (dict_set acc d key) (d @ ''_label'')
                  (dict_get_default (cat_label (category_of c d)) key key)"
    from Cons.prems(1) le f have rest: "dims_loop c coords (Suc i) ds ?acc = Inr fs" by simp
    have "map_of fs d = map_of ?acc d" using dims_loop_other [OF rest nd(1)] .
    moreover have "map_of fs (d @ ''_label'') = map_of ?acc (d @ ''_label'')"
      using dims_loop_other [OF rest nd(2)] .
    ultimately show ?thesis using 0 by (simp add: map_of_dict_set)
  next
    case (Suc j')
    obtain acc' where rest: "dims_loop c coords (Suc i) ds acc' = Inr fs"
      using Cons.prems(1) le by (auto split: option.splits)
    from Cons.prems(3) Suc have j': "j' < length ds" by simp
    from Cons.prems(4) Suc have f: "find (\<lambda>(key, val). val = coords ! (Suc i + j'))
        (cat_index (category_of c (ds ! j'))) = Some (key, val)" by simp
    from Cons.IH [OF rest dist j' f] Suc show ?thesis by simp
  qed
qed

lemma cells_loop_nth:
  "cells_loop c idx vs acc = Inr rs \<Longrightarrow> n < length vs \<Longrightarrow>
     decode_cell c (idx + n) (vs ! n) = Inr (rs ! (length acc + n))"
proof (induction vs arbitrary: idx acc n)
  case Nil
  then show ?case by simp
next
  case (Cons v vs)
  from Cons.prems(1) obtain r where r: "decode_cell c idx v = Inr r"
    and rest: "cells_loop c (Suc idx) vs (acc @ [r]) = Inr rs"
    by (auto split: sum.splits)
  show ?case
  proof (cases n)
    case 0
    obtain tl where "rs = (acc @ [r]) @ tl"
    proof -
      have "\<exists>tl. rs = (acc @ [r]) @ tl" using rest
      proof (induction vs arbitrary: idx acc r rs)
        case Nil
        then show ?case by simp
      next
        case (Cons v vs)
        then obtain r' where "cells_loop c (Suc (Suc idx)) vs ((acc @ [r]) @ [r']) = Inr rs"
          by (auto split: sum.splits)
        from Cons.IH [OF this] show ?case by auto
      qed
      then show ?thesis using that by blast
    qed
    then have "rs ! length acc = r" by (simp add: nth_append)
    with r 0 show ?thesis by simp
  next
    case (Suc n')
    with Cons.prems(2) have "n' < length vs" by simp
    from Cons.IH [OF rest this] Suc show ?thesis by simp
  qed
qed

lemma cells_loop_length:
  "cells_loop c idx vs acc = Inr rs \<Longrightarrow> length rs = length acc + length vs"
proof (induction vs arbitrary: idx acc)
  case Nil
  then show ?case by simp
next
  case (Cons v vs)
  from Cons.prems obtain r where "cells_loop c (Suc idx) vs (acc @ [r]) = Inr rs"
    by (auto split: sum.splits)
  from Cons.IH [OF this] show ?case by simp
qed

text \<open>
  What a decoded record holds. Its value is the value of the cell, its status is what the
  status map holds under the integer index, and, when the names of the dimensions, of their
  labels and of the value and status entries are all different, it holds for every
  dimension that has a category at the cell's coordinate that category's code and its
  label, the code itself when the category has no label. The records are in flat-index
  order, one per value.
\<close>

lemma decode_cell_record:
  assumes "decode_cell c idx v = Inr r"
  shows "\<exists>coords. index_to_coords (int idx) (cube_size c) = Inr coords
     \<and> rec_value r = v
     \<and> rec_status r =
         (if cube_status c \<noteq> [] then dict_get_default (cube_status c) (KInt (int idx)) [] else [])
     \<and> (distinct (field_names (cube_id c) @ [''value'', ''status'']) \<longrightarrow>
          (\<forall>j key val. j < length (cube_id c) \<and>
              find (\<lambda>(key, val). val = coords ! j) (cat_index (category_of c (cube_id c ! j))) = Some (key, val) \<longrightarrow>
              map_of (rec_fields r) (cube_id c ! j) = Some key
              \<and> map_of (rec_fields r) (cube_id c ! j @ ''_label'') =
                  Some (dict_get_default (cat_label (category_of c (cube_id c ! j))) key key)))"
proof -
  from assms obtain coords fs where co: "index_to_coords (int idx) (cube_size c) = Inr coords"
    and fs: "dims_loop c coords 0 (cube_id c) [] = Inr fs"
    and r: "r = \<lparr>rec_fields = filter (\<lambda>(k, x). k \<noteq> ''value'' \<and> k \<noteq> ''status'') fs, rec_value = v,
                 rec_status = (if cube_status c \<noteq> [] then dict_get_default (cube_status c) (KInt (int idx)) [] else [])\<rparr>"
    by (auto simp: decode_cell_def split: sum.splits)
  have fld: "map_of (rec_fields r) (cube_id c ! j) = Some key
       \<and> map_of (rec_fields r) (cube_id c ! j @ ''_label'') =
           Some (dict_get_default (cat_label (category_of c (cube_id c ! j))) key key)"
    if d: "distinct (field_names (cube_id c) @ [''value'', ''status''])"
      and j: "j < length (cube_id c)"
      and f: "find (\<lambda>(key, val). val = coords ! j) (cat_index (category_of c (cube_id c ! j))) = Some (key, val)"
    for j key val
  proof -
    from d have dist: "distinct (field_names (cube_id c))"
      and nv: "''value'' \<notin> set (field_names (cube_id c))" "''status'' \<notin> set (field_names (cube_id c))"
      by auto
    have mem: "cube_id c ! j \<in> set (field_names (cube_id c))"
      "cube_id c ! j @ ''_label'' \<in> set (field_names (cube_id c))"
      using j by (auto simp: field_names_def intro!: bexI [where x = "cube_id c ! j"])
    from f have f': "find (\<lambda>(key, val). val = coords ! (0 + j)) (cat_index (category_of c (cube_id c ! j))) = Some (key, val)"
      by simp
    from dims_loop_fields [OF fs dist j f']
    have m: "map_of fs (cube_id c ! j) = Some key"
      "map_of fs (cube_id c ! j @ ''_label'') = Some (dict_get_default (cat_label (category_of c (cube_id c ! j))) key key)"
      by simp_all
    have ne: "cube_id c ! j \<noteq> ''value'' \<and> cube_id c ! j \<noteq> ''status''"
      "cube_id c ! j @ ''_label'' \<noteq> ''value'' \<and> cube_id c ! j @ ''_label'' \<noteq> ''status''"
      using mem nv by metis+
    show ?thesis
      unfolding r using map_of_filter_in [OF m(1), of "\<lambda>k x. k \<noteq> ''value'' \<and> k \<noteq> ''status''"]
        map_of_filter_in [OF m(2), of "\<lambda>k x. k \<noteq> ''value'' \<and> k \<noteq> ''status''"] ne
      by simp
  qed
  from co r fld show ?thesis by auto
qed

lemma parse_jsonstat_record:
  assumes "parse_jsonstat c = Inr records" and "idx < length (cube_value c)"
  shows "length records = length (cube_value c)
       \<and> decode_cell c idx (cube_value c ! idx) = Inr (records ! idx)"
  using cells_loop_length [of c 0 "cube_value c" "[]" records]
    cells_loop_nth [of c 0 "cube_value c" "[]" records idx] assms
  by (simp add: parse_jsonstat_def)

text \<open>
  Claim C7, at a cube whose status map has an entry for the only cell. The keys of the
  status map are text, the decoder looks the integer index up, and the status of the
  record is empty: the entry \<open>"0": "e"\<close> is never found. (Count, order, dimension fields
  and value of the record are as the claim says.)
\<close>

theorem parse_jsonstat_status_lookup:
  "dict_get_default (cube_status paris_cube) (KStr ''0'') '''' = ''e''
   \<and> parse_jsonstat paris_cube =
       Inr [\<lparr>rec_fields =
               [(''cities'', ''FR001C''), (''cities_label'', ''Paris''),
                (''indic_ur'', ''TT1''), (''indic_ur_label'', ''Population''),
                (''time'', ''2020''), (''time_label'', ''2020'')],
             rec_value = Some 42, rec_status = ''''\<rparr>]"
  by code_simp

section \<open>Properties of ingestion\<close>

lemma store_indicator_skipped [simp]:
  "skipped (snd (store_indicator st r code)) = skipped (snd st)"
  by (simp add: store_indicator_def split: option.splits sum.splits)

lemma store_indicator_cities [simp]:
  "cities (fst (store_indicator st r code)) = cities (fst st)"
  by (simp add: store_indicator_def insert_or_replace_observation_def split: option.splits sum.splits)

lemma store_record_skipped_record:
  "is_skipped r \<Longrightarrow> store_record st r = (fst st, (snd st)\<lparr>skipped := skipped (snd st) + 1\<rparr>)"
  by (auto simp: is_skipped_def entity_code_def store_record_def split: option.splits)

lemma store_record_skipped_mono:
  "skipped (snd st) \<le> skipped (snd (store_record st r))"
  by (auto simp: store_record_def split: option.splits prod.splits)

lemma store_record_skipped_count:
  "skipped (snd st) + (if is_skipped r then 1 else 0) \<le> skipped (snd (store_record st r))"
  using store_record_skipped_mono [of st r] by (simp add: store_record_skipped_record)

lemma foldl_store_record_skipped:
  "skipped (snd st) + length (filter is_skipped rs) \<le> skipped (snd (foldl store_record st rs))"
proof (induction rs arbitrary: st)
  case Nil
  then show ?case by simp
next
  case (Cons r rs)
  have "skipped (snd st) + length (filter is_skipped (r # rs))
      = (skipped (snd st) + (if is_skipped r then 1 else 0)) + length (filter is_skipped rs)"
    by simp
  also have "\<dots> \<le> skipped (snd (store_record st r)) + length (filter is_skipped rs)"
    using store_record_skipped_count [of st r] by simp
  also have "\<dots> \<le> skipped (snd (foldl store_record (store_record st r) rs))"
    by (rule Cons.IH)
  finally show ?case by simp
qed

lemma insert_or_ignore_city_cities:
  "insert_or_ignore_city db code name ctry = (db', k) \<Longrightarrow> x \<in> set (cities db') \<Longrightarrow>
     x \<in> set (cities db) \<or> (city_code x = code \<and> country x = Some ctry)"
  by (auto simp: insert_or_ignore_city_def split: if_splits)

lemma store_record_cities:
  assumes "x \<in> set (cities (fst (store_record st r)))"
  shows "x \<in> set (cities (fst st)) \<or> derived_city x"
proof (cases "is_skipped r")
  case True
  with assms show ?thesis by (simp add: store_record_skipped_record)
next
  case False
  then obtain city_key code where k: "first_key (\<lambda>k. endswith k ''ies'') r = Some city_key"
    and c: "map_of (rec_fields r) city_key = Some code" and e: "code \<noteq> []" "endswith code ''C''"
    by (auto simp: is_skipped_def entity_code_def split: option.splits)
  obtain db' k' where ins: "insert_or_ignore_city (fst st) code
      (map_of (rec_fields r) (city_key @ ''_label'')) (upper (take 2 code)) = (db', k')"
    by (cases "insert_or_ignore_city (fst st) code
      (map_of (rec_fields r) (city_key @ ''_label'')) (upper (take 2 code))")
  from assms k c e ins have "x \<in> set (cities db')"
    by (simp add: store_record_def)
  from insert_or_ignore_city_cities [OF ins this] e show ?thesis
    by (auto simp: derived_city_def)
qed

lemma foldl_store_record_cities:
  "x \<in> set (cities (fst (foldl store_record st rs))) \<Longrightarrow> x \<in> set (cities (fst st)) \<or> derived_city x"
proof (induction rs arbitrary: st)
  case Nil
  then show ?case by simp
next
  case (Cons r rs)
  from Cons.prems have "x \<in> set (cities (fst (foldl store_record (store_record st r) rs)))" by simp
  from Cons.IH [OF this] store_record_cities show ?case by blast
qed

lemma not_derived_XX001: "city_code x = ''XX001'' \<Longrightarrow> \<not> derived_city x"
  by (simp add: derived_city_def endswith_def)

text \<open>
  Claim C9, amended. A decoded record with no field whose name ends with \<open>ies\<close>, or whose
  entity code is empty or does not end with the marker \<open>C\<close>, changes nothing in the store
  and raises the skipped counter by one, so that the counter of a batch is at least the
  number of such records. Every city of the store after the batch was there before or
  has a code that ends with \<open>C\<close> and the upper-cased first two characters of its code as
  country; \<open>XX001\<close> is a code of the store after the batch only if it was one before.
  Whether a record without an indicator dimension is counted is not part of the
  statement.
\<close>

theorem store_data_skips_unresolved:
  assumes "store_data db dataset = Inr (db', n)"
  shows "\<exists>records. parse_jsonstat dataset = Inr records
           \<and> length (filter is_skipped records) \<le> skipped n
           \<and> (\<forall>r st. is_skipped r \<longrightarrow>
                 store_record st r = (fst st, (snd st)\<lparr>skipped := skipped (snd st) + 1\<rparr>))
           \<and> (\<forall>x \<in> set (cities db'). x \<in> set (cities db) \<or> derived_city x)
           \<and> (''XX001'' \<in> set (map city_code (cities db')) \<longrightarrow> ''XX001'' \<in> set (map city_code (cities db)))"
proof -
  from assms obtain records where p: "parse_jsonstat dataset = Inr records"
    and f: "foldl store_record (db, no_counts) records = (db', n)"
    by (auto simp: store_data_def split: sum.splits)
  have sk: "length (filter is_skipped records) \<le> skipped n"
    using foldl_store_record_skipped [of "(db, no_counts)" records] f by (simp add: no_counts_def)
  have ci: "x \<in> set (cities db) \<or> derived_city x" if "x \<in> set (cities db')" for x
    using foldl_store_record_cities [of x "(db, no_counts)" records] f that by simp
  have xx: "''XX001'' \<in> set (map city_code (cities db))" if "''XX001'' \<in> set (map city_code (cities db'))"
  proof -
    from that obtain x where x: "x \<in> set (cities db')" "city_code x = ''XX001''" by auto
    with ci not_derived_XX001 have "x \<in> set (cities db)" by blast
    with x show ?thesis by force
  qed
  from p sk ci xx store_record_skipped_record show ?thesis by blast
qed

theorem store_data_skips_unresolved_witness:
  "store_data empty_store mixed_cube =
     Inr (\<lparr>cities = [\<lparr>city_code = ''FR001C'', city_name = Some ''Paris'', country = Some ''FR'',
                        lat = None, lng = None, population = None\<rparr>],
           indicators =
             [\<lparr>obs_city_code = ''FR001C'', indicator_code = ''TT1'', indicator_name = Some ''Population'',
               year = Some 2019, obs_value = Some 1, status = ''''\<rparr>,
              \<lparr>obs_city_code = ''FR001C'', indicator_code = ''TT1'', indicator_name = Some ''Population'',
               year = Some 2020, obs_value = None, status = ''''\<rparr>]\<rparr>,
          \<lparr>cities_added = 1, indicators_added = 2, skipped = 2, errors = 0\<rparr>)
   \<and> (\<exists>records. parse_jsonstat mixed_cube = Inr records
         \<and> map is_skipped records = [False, False, True, True]
         \<and> length (filter is_skipped records) \<le> 2)"
proof -
  have m: "(case parse_jsonstat mixed_cube of
              Inl err \<Rightarrow> False
            | Inr records \<Rightarrow> map is_skipped records = [False, False, True, True])"
    by code_simp
  have e: "store_data empty_store mixed_cube =
     Inr (\<lparr>cities = [\<lparr>city_code = ''FR001C'', city_name = Some ''Paris'', country = Some ''FR'',
                        lat = None, lng = None, population = None\<rparr>],
           indicators =
             [\<lparr>obs_city_code = ''FR001C'', indicator_code = ''TT1'', indicator_name = Some ''Population'',
               year = Some 2019, obs_value = Some 1, status = ''''\<rparr>,
              \<lparr>obs_city_code = ''FR001C'', indicator_code = ''TT1'', indicator_name = Some ''Population'',
               year = Some 2020, obs_value = None, status = ''''\<rparr>]\<rparr>,
          \<lparr>cities_added = 1, indicators_added = 2, skipped = 2, errors = 0\<rparr>)"
    by code_simp
  from store_data_skips_unresolved [OF e] obtain records
    where r: "parse_jsonstat mixed_cube = Inr records" "length (filter is_skipped records) \<le> 2"
    by auto
  from r(1) m have k: "map is_skipped records = [False, False, True, True]" by simp
  have "\<exists>records. parse_jsonstat mixed_cube = Inr records
         \<and> map is_skipped records = [False, False, True, True]
         \<and> length (filter is_skipped records) \<le> 2"
  proof (intro exI conjI)
    show "parse_jsonstat mixed_cube = Inr records" by (rule r(1))
    show "map is_skipped records = [False, False, True, True]" by (rule k)
    show "length (filter is_skipped records) \<le> 2" by (rule r(2))
  qed
  with e show ?thesis by (rule conjI)
qed

text \<open>
  Claim C9 as stated fails. The three records of a cube without an indicator dimension
  are not counted as skipped, while the two paths for an unresolved entity count; their
  cities are stored. And the entity code \<open>C\<close>, which has no two-letter country prefix in
  front of the marker, is accepted, and a city and an observation are stored for it: the
  test is only that the code ends with \<open>C\<close>.
\<close>

theorem store_data_unresolved_stored:
  "store_data empty_store long_cube =
     Inr (\<lparr>cities = [\<lparr>city_code = ''FR001C'', city_name = Some ''FR001C'', country = Some ''FR'',
                        lat = None, lng = None, population = None\<rparr>,
                      \<lparr>city_code = ''FR002C'', city_name = Some ''FR002C'', country = Some ''FR'',
                        lat = None, lng = None, population = None\<rparr>],
           indicators = []\<rparr>,
          \<lparr>cities_added = 2, indicators_added = 0, skipped = 0, errors = 0\<rparr>)
   \<and> store_data empty_store bare_cube =
     Inr (\<lparr>cities = [\<lparr>city_code = ''C'', city_name = Some ''C'', country = Some ''C'',
                        lat = None, lng = None, population = None\<rparr>],
           indicators =
             [\<lparr>obs_city_code = ''C'', indicator_code = ''TT1'', indicator_name = Some ''TT1'',
               year = None, obs_value = Some 1, status = ''''\<rparr>]\<rparr>,
          \<lparr>cities_added = 1, indicators_added = 1, skipped = 0, errors = 0\<rparr>)"
  by code_simp

section \<open>The uniqueness constraint\<close>

lemma store_indicator_indicators:
  "indicators (fst (store_indicator st r code)) =
     (case (first_key (\<lambda>k. startswith k ''indic'') r, read_year r) of
        (Some indic_key, Inr y) \<Rightarrow>
          (case map_of (rec_fields r) indic_key of
             None \<Rightarrow> indicators (fst st)
           | Some icode \<Rightarrow>
               if \<not> sqlite_integer y then indicators (fst st)
               else
                 filter (\<lambda>old. \<not> conflicts old
                     \<lparr>obs_city_code = code, indicator_code = icode,
                      indicator_name = map_of (rec_fields r) (indic_key @ ''_label''),
                      year = y, obs_value = rec_value r, status = rec_status r\<rparr>) (indicators (fst st))
                 @ [\<lparr>obs_city_code = code, indicator_code = icode,
                      indicator_name = map_of (rec_fields r) (indic_key @ ''_label''),
                      year = y, obs_value = rec_value r, status = rec_status r\<rparr>])
      | _ \<Rightarrow> indicators (fst st))"
  by (simp add: store_indicator_def insert_or_replace_observation_def split: option.splits sum.splits)

lemma insert_or_ignore_city_indicators:
  "indicators (fst (insert_or_ignore_city db code name ctry)) = indicators db"
  by (simp add: insert_or_ignore_city_def)

lemma store_record_indicators:
  "indicators (fst (store_record st r)) =
     (case written r of
        None \<Rightarrow> indicators (fst st)
      | Some row \<Rightarrow> filter (\<lambda>old. \<not> conflicts old row) (indicators (fst st)) @ [row])"
proof (cases "is_skipped r")
  case True
  then show ?thesis by (simp add: store_record_skipped_record written_def)
next
  case False
  then obtain city_key code where k: "first_key (\<lambda>k. endswith k ''ies'') r = Some city_key"
    and c: "map_of (rec_fields r) city_key = Some code" and e: "code \<noteq> []" "endswith code ''C''"
    by (auto simp: is_skipped_def entity_code_def split: option.splits)
  have ec: "entity_code r = Some code" using k c by (simp add: entity_code_def)
  obtain db' k' where ins: "insert_or_ignore_city (fst st) code
      (map_of (rec_fields r) (city_key @ ''_label'')) (upper (take 2 code)) = (db', k')"
    by (cases "insert_or_ignore_city (fst st) code
      (map_of (rec_fields r) (city_key @ ''_label'')) (upper (take 2 code))")
  then have db': "indicators db' = indicators (fst st)"
    using insert_or_ignore_city_indicators [of "fst st" code
      "map_of (rec_fields r) (city_key @ ''_label'')" "upper (take 2 code)"] by simp
  have "store_record st r =
      store_indicator (db', (snd st)\<lparr>cities_added := cities_added (snd st) + k'\<rparr>) r code"
    using k c e ins by (simp add: store_record_def)
  then show ?thesis
    using False ec db'
    by (simp add: store_indicator_indicators written_def split: option.splits sum.splits)
qed

lemma conflicts_iff:
  "conflicts old new \<longleftrightarrow> year new \<noteq> None \<and> triple old = triple new"
  by (auto simp: conflicts_def triple_def split: option.splits)

lemma store_record_triple_rows:
  "triple_rows (fst (store_record st r)) code icode y =
     (if writes_to code icode y r then (case written r of None \<Rightarrow> [] | Some row \<Rightarrow> [row])
      else triple_rows (fst st) code icode y)"
proof (cases "written r")
  case None
  then show ?thesis
    by (simp add: triple_rows_def store_record_indicators writes_to_def)
next
  case (Some row)
  show ?thesis
  proof (cases "triple row = (code, icode, Some y)")
    case True
    then have yr: "year row \<noteq> None" by (auto simp: triple_def)
    have "filter (\<lambda>old. triple old = (code, icode, Some y))
            (filter (\<lambda>old. \<not> conflicts old row) (indicators (fst st))) = []"
      using True yr by (auto simp: filter_empty_conv conflicts_iff)
    with Some True show ?thesis
      by (simp add: triple_rows_def store_record_indicators writes_to_def)
  next
    case False
    have "filter (\<lambda>old. triple old = (code, icode, Some y))
            (filter (\<lambda>old. \<not> conflicts old row) (indicators (fst st)))
          = filter (\<lambda>old. triple old = (code, icode, Some y)) (indicators (fst st))"
      using False by (auto simp: conflicts_iff intro!: filter_cong)
    with Some False show ?thesis
      by (simp add: triple_rows_def store_record_indicators writes_to_def)
  qed
qed

lemma foldl_store_record_triple_rows:
  "triple_rows (fst (foldl store_record st rs)) code icode y =
     (case filter (writes_to code icode y) rs of
        [] \<Rightarrow> triple_rows (fst st) code icode y
      | w # ws \<Rightarrow> (case written (last (w # ws)) of None \<Rightarrow> [] | Some row \<Rightarrow> [row]))"
proof (induction rs rule: rev_induct)
  case Nil
  then show ?case by simp
next
  case (snoc r rs)
  show ?case
  proof (cases "writes_to code icode y r")
    case True
    then have "filter (writes_to code icode y) (rs @ [r]) = filter (writes_to code icode y) rs @ [r]"
      by simp
    moreover obtain w ws where "filter (writes_to code icode y) rs @ [r] = w # ws"
      by (cases "filter (writes_to code icode y) rs") auto
    moreover have "last (filter (writes_to code icode y) rs @ [r]) = r" by simp
    ultimately show ?thesis
      using True by (simp add: store_record_triple_rows del: filter_append)
  next
    case False
    then show ?thesis
      using snoc.IH by (simp add: store_record_triple_rows)
  qed
qed

lemma distinct_map_filter_length:
  "distinct (map f xs) \<longleftrightarrow> (\<forall>k. length (filter (\<lambda>x. f x = k) xs) \<le> 1)"
proof (induction xs)
  case Nil
  then show ?case by simp
next
  case (Cons x xs)
  show ?case
  proof
    assume d: "distinct (map f (x # xs))"
    then have "f x \<notin> f ` set xs" by simp
    then have "\<forall>z\<in>set xs. f z \<noteq> f x" by (metis imageI)
    then have nx: "filter (\<lambda>z. f z = f x) xs = []" unfolding filter_empty_conv by blast
    from d Cons.IH have le: "\<And>k. length (filter (\<lambda>z. f z = k) xs) \<le> 1" by simp
    show "\<forall>k. length (filter (\<lambda>z. f z = k) (x # xs)) \<le> 1"
      using nx le by auto
  next
    assume a: "\<forall>k. length (filter (\<lambda>z. f z = k) (x # xs)) \<le> 1"
    then have "length (filter (\<lambda>z. f z = f x) (x # xs)) \<le> 1" by blast
    then have "filter (\<lambda>z. f z = f x) xs = []" by simp
    then have nx: "f x \<notin> f ` set xs" by (auto simp: filter_empty_conv)
    have "length (filter (\<lambda>z. f z = k) xs) \<le> 1" for k
    proof -
      from a have "length (filter (\<lambda>z. f z = k) (x # xs)) \<le> 1" by blast
      then show ?thesis by (simp split: if_splits)
    qed
    with Cons.IH nx show "distinct (map f (x # xs))" by simp
  qed
qed

lemma unique_triples_iff:
  "unique_triples db \<longleftrightarrow> (\<forall>code icode y. length (triple_rows db code icode y) \<le> 1)"
proof -
  have eq: "filter (\<lambda>row. triple row = (code, icode, Some y)) (filter (\<lambda>row. year row \<noteq> None) (indicators db))
      = triple_rows db code icode y" for code icode y
    by (auto simp: triple_rows_def triple_def intro!: filter_cong)
  have none: "filter (\<lambda>row. triple row = (code, icode, None)) (filter (\<lambda>row. year row \<noteq> None) (indicators db)) = []"
    for code icode
    by (auto simp: filter_empty_conv triple_def)
  show ?thesis
  proof
    assume "unique_triples db"
    then have "\<forall>k. length (filter (\<lambda>row. triple row = k) (filter (\<lambda>row. year row \<noteq> None) (indicators db))) \<le> 1"
      unfolding unique_triples_def distinct_map_filter_length .
    then show "\<forall>code icode y. length (triple_rows db code icode y) \<le> 1"
      using eq by metis
  next
    assume a: "\<forall>code icode y. length (triple_rows db code icode y) \<le> 1"
    have "length (filter (\<lambda>row. triple row = k) (filter (\<lambda>row. year row \<noteq> None) (indicators db))) \<le> 1" for k
    proof (cases k)
      case (fields code icode yo)
      show ?thesis
      proof (cases yo)
        case None
        with fields none show ?thesis by simp
      next
        case (Some y)
        with fields eq a show ?thesis by simp
      qed
    qed
    then show "unique_triples db"
      unfolding unique_triples_def distinct_map_filter_length by blast
  qed
qed

text \<open>
  What the constraint gives, for the rows that have a year. A batch keeps the table free of
  two rows with the same key and year. After the batch the rows of a key are the row of
  the last record of the batch that writes that key, or, when no record writes it, the rows
  that were there before: the last write wins, within a batch and from batch to batch.
\<close>

theorem store_data_upsert:
  assumes "unique_triples db" and "store_data db dataset = Inr (db', n)"
  shows "unique_triples db'
     \<and> (\<forall>code icode y. length (triple_rows db' code icode y) \<le> 1)
     \<and> (\<exists>records. parse_jsonstat dataset = Inr records
          \<and> (\<forall>code icode y.
                triple_rows db' code icode y =
                  (case filter (writes_to code icode y) records of
                     [] \<Rightarrow> triple_rows db code icode y
                   | w # ws \<Rightarrow> (case written (last (w # ws)) of None \<Rightarrow> [] | Some row \<Rightarrow> [row]))))"
proof -
  from assms(2) obtain records where p: "parse_jsonstat dataset = Inr records"
    and f: "foldl store_record (db, no_counts) records = (db', n)"
    by (auto simp: store_data_def split: sum.splits)
  have rows: "triple_rows db' code icode y =
      (case filter (writes_to code icode y) records of
         [] \<Rightarrow> triple_rows db code icode y
       | w # ws \<Rightarrow> (case written (last (w # ws)) of None \<Rightarrow> [] | Some row \<Rightarrow> [row]))" for code icode y
    using foldl_store_record_triple_rows [of "(db, no_counts)" records code icode y] f
    by (simp cong: list.case_cong)
  have le: "length (triple_rows db' code icode y) \<le> 1" for code icode y
  proof -
    have "length (triple_rows db code icode y) \<le> 1"
      using assms(1) unique_triples_iff by blast
    then show ?thesis
      unfolding rows by (simp split: list.splits option.splits)
  qed
  then have "unique_triples db'" using unique_triples_iff by blast
  with le p rows show ?thesis by blast
qed

theorem store_data_upsert_witness:
  "unique_triples \<lparr>cities = [paris], indicators = [paris_row (Some 2020) 42]\<rparr>
   \<and> store_data empty_store paris_cube =
       Inr (\<lparr>cities = [paris], indicators = [paris_row (Some 2020) 42]\<rparr>,
            \<lparr>cities_added = 1, indicators_added = 1, skipped = 0, errors = 0\<rparr>)
   \<and> store_data \<lparr>cities = [paris], indicators = [paris_row (Some 2020) 42]\<rparr>
         (paris_cube\<lparr>cube_value := [Some 43]\<rparr>) =
       Inr (\<lparr>cities = [paris], indicators = [paris_row (Some 2020) 43]\<rparr>,
            \<lparr>cities_added = 0, indicators_added = 1, skipped = 0, errors = 0\<rparr>)
   \<and> unique_triples \<lparr>cities = [paris], indicators = [paris_row (Some 2020) 43]\<rparr>
   \<and> length (triple_rows \<lparr>cities = [paris], indicators = [paris_row (Some 2020) 43]\<rparr>
               ''FR001C'' ''TT1'' 2020) \<le> 1"
proof -
  have u: "unique_triples \<lparr>cities = [paris], indicators = [paris_row (Some 2020) 42]\<rparr>"
    by code_simp
  have e1: "store_data empty_store paris_cube =
       Inr (\<lparr>cities = [paris], indicators = [paris_row (Some 2020) 42]\<rparr>,
            \<lparr>cities_added = 1, indicators_added = 1, skipped = 0, errors = 0\<rparr>)"
    by code_simp
  have e2: "store_data \<lparr>cities = [paris], indicators = [paris_row (Some 2020) 42]\<rparr>
         (paris_cube\<lparr>cube_value := [Some 43]\<rparr>) =
       Inr (\<lparr>cities = [paris], indicators = [paris_row (Some 2020) 43]\<rparr>,
            \<lparr>cities_added = 0, indicators_added = 1, skipped = 0, errors = 0\<rparr>)"
    by code_simp
  from store_data_upsert [OF u e2] u e1 e2 show ?thesis by blast
qed

text \<open>
  Claim C4, at a cube without a time dimension ingested twice with different values. The
  records have no year, a \<open>NULL\<close> year conflicts with nothing, and the store ends with two
  rows of the same entity, indicator and (absent) year: the first value is not replaced.
\<close>

theorem store_data_null_year_duplicates:
  "store_data empty_store (timeless_cube 1) =
       Inr (\<lparr>cities = [paris], indicators = [paris_row None 1]\<rparr>,
            \<lparr>cities_added = 1, indicators_added = 1, skipped = 0, errors = 0\<rparr>)
   \<and> store_data \<lparr>cities = [paris], indicators = [paris_row None 1]\<rparr> (timeless_cube 2) =
       Inr (\<lparr>cities = [paris], indicators = [paris_row None 1, paris_row None 2]\<rparr>,
            \<lparr>cities_added = 0, indicators_added = 1, skipped = 0, errors = 0\<rparr>)
   \<and> triple (paris_row None 1) = triple (paris_row None 2)"
  by code_simp

section \<open>Properties of the score\<close>

lemma last_insort_key:
  "sorted (map f ys) \<Longrightarrow>
     last (insort_key f x ys) = (if ys = [] then x else if f (last ys) < f x then x else last ys)"
proof (induction ys)
  case Nil
  then show ?case by simp
next
  case (Cons y ys)
  show ?case
  proof (cases "f x \<le> f y")
    case True
    have "f y \<le> f (last (y # ys))"
      using Cons.prems by (cases "ys = []") auto
    with True have "\<not> f (last (y # ys)) < f x" by auto
    with True show ?thesis by simp
  next
    case False
    have ne: "insort_key f x ys \<noteq> []" by (cases ys) auto
    from Cons.prems have "sorted (map f ys)" by simp
    from Cons.IH [OF this] False ne show ?thesis by auto
  qed
qed

lemma latest_of_sort_key:
  "latest_of rows = (if rows = [] then None else Some (last (sort_key year rows)))"
proof (induction rows)
  case Nil
  then show ?case by simp
next
  case (Cons row rows)
  have s: "sorted (map year (sort_key year rows))" by simp
  have "set (sort_key year rows) = set rows" by simp
  then have e: "sort_key year rows = [] \<longleftrightarrow> rows = []"
    by (simp only: set_empty [symmetric])
  show ?case
    using Cons.IH last_insort_key [OF s, of row] e by simp
qed

lemma latest_of_None: "latest_of rows = None \<longleftrightarrow> rows = []"
  by (cases rows) (auto split: option.splits if_splits)

lemma latest_of_greatest:
  "latest_of rows = Some row \<Longrightarrow> row \<in> set rows \<and> (\<forall>r \<in> set rows. year r \<le> year row)"
proof (induction rows arbitrary: row)
  case Nil
  then show ?case by simp
next
  case (Cons x rows)
  show ?case
  proof (cases "latest_of rows")
    case None
    then have "rows = []" by (simp add: latest_of_None)
    with Cons.prems show ?thesis by simp
  next
    case (Some best)
    from Cons.IH [OF Some] have b: "best \<in> set rows" "\<forall>r \<in> set rows. year r \<le> year best" by simp_all
    show ?thesis
    proof (cases "year best < year x")
      case True
      with Cons.prems Some have "row = x" by simp
      with True b show ?thesis by auto
    next
      case False
      with Cons.prems Some have "row = best" by simp
      with False b show ?thesis by auto
    qed
  qed
qed

lemma latest_observation_greatest:
  assumes "latest_observation db code icode = Some row"
  shows "row \<in> set (indicators db) \<and> obs_city_code row = code \<and> indicator_code row = icode
       \<and> (\<forall>r \<in> set (indicators db).
             obs_city_code r = code \<and> indicator_code r = icode \<longrightarrow> year r \<le> year row)"
  using latest_of_greatest [OF assms [unfolded latest_observation_def]] by auto

lemma latest_observation_None:
  "latest_observation db code icode = None \<longleftrightarrow>
     \<not> (\<exists>r \<in> set (indicators db). obs_city_code r = code \<and> indicator_code r = icode)"
  by (auto simp: latest_observation_def latest_of_None filter_empty_conv)

lemma latest_value_latest_observation:
  "latest_value db code icode =
     map_option (\<lambda>row. (obs_value row, indicator_name row)) (latest_observation db code icode)"
proof -
  let ?rows = "filter (\<lambda>row. obs_city_code row = code \<and> indicator_code row = icode) (indicators db)"
  show ?thesis
  proof (cases "?rows = []")
    case True
    then show ?thesis by (simp add: latest_value_def latest_observation_def)
  next
    case False
    have "set (sort_key year ?rows) = set ?rows" by simp
    with False have "sort_key year ?rows \<noteq> []" by (simp only: set_empty [symmetric] not_False_eq_True)
    then obtain ys y where ys: "sort_key year ?rows = ys @ [y]" by (cases "sort_key year ?rows" rule: rev_cases) auto
    then have "rev (sort_key year ?rows) = y # rev ys" "last (sort_key year ?rows) = y" by simp_all
    then show ?thesis
      using False by (simp add: latest_value_def latest_observation_def latest_of_sort_key)
  qed
qed

lemma latest_data_code:
  "latest_data db code icode =
     (case latest_value db code icode of Some (Some v, name) \<Rightarrow> Some (v, name) | _ \<Rightarrow> None)"
  by (simp add: latest_data_def latest_value_latest_observation split: option.splits)

lemma polarity_keywords_lower: "map lower polarity_keywords = polarity_keywords"
  by code_simp

lemma is_lower_better_eq_spec: "is_lower_better name = lower_is_better_spec name"
proof -
  have "list_ex (\<lambda>k. occurs_ignoring_case k name) polarity_keywords
      = list_ex (\<lambda>k. contains k (lower name)) (map lower polarity_keywords)"
    by (simp add: list_ex_iff occurs_ignoring_case_iff)
  then show ?thesis
    unfolding polarity_keywords_lower
    by (simp add: is_lower_better_def lower_is_better_spec_def polarity_keywords_def)
qed

lemma adjusted_eq_spec: "adjusted v name = adjusted_spec v name"
  by (simp add: adjusted_def adjusted_spec_def Let_def is_lower_better_eq_spec normalize_value_eq_spec)

lemma contribution_code:
  "contribution db code icode =
     (case latest_data db code icode of Some (v, Some name) \<Rightarrow> adjusted v name | _ \<Rightarrow> 0)"
  unfolding contribution_def adjusted_eq_spec ..

lemma latest_value_row:
  assumes "latest_value db code icode = Some (v, name)"
  shows "\<exists>row \<in> set (indicators db). obs_city_code row = code \<and> indicator_code row = icode
           \<and> obs_value row = v \<and> indicator_name row = name"
proof -
  let ?rows = "rev (sort_key year
      (filter (\<lambda>row. obs_city_code row = code \<and> indicator_code row = icode) (indicators db)))"
  from assms obtain row rest where r: "?rows = row # rest" "obs_value row = v" "indicator_name row = name"
    by (auto simp: latest_value_def split: list.splits)
  then have "row \<in> set ?rows" by simp
  then have "row \<in> set (indicators db) \<and> obs_city_code row = code \<and> indicator_code row = icode"
    by simp
  with r show ?thesis by blast
qed

lemma contributes_row:
  assumes "contributes db code kw"
  shows "\<exists>row \<in> set (indicators db). obs_city_code row = code \<and> indicator_code row = fst kw
           \<and> obs_value row \<noteq> None"
proof -
  from assms obtain v name where "latest_value db code (fst kw) = Some (Some v, name)"
    by (auto simp: contributes_def latest_data_code split: option.splits)
  from latest_value_row [OF this] show ?thesis by auto
qed

lemma named_latest_value:
  "named db \<Longrightarrow> latest_value db code icode = Some (v, name) \<Longrightarrow> name \<noteq> None"
  by (auto simp: named_def list_all_iff dest!: latest_value_row)

lemma score_loop_result:
  "score_loop db code weights ts tw =
     (if list_ex (unnamed db code) weights then Inl AttributeError
      else Inr (ts + numerator db code weights, tw + denominator db code weights))"
proof (induction weights arbitrary: ts tw)
  case Nil
  then show ?case by (simp add: numerator_def denominator_def)
next
  case (Cons kw weights)
  obtain k w where kw: "kw = (k, w)" by (cases kw)
  show ?case
  proof (cases "latest_data db code k")
    case None
    then have lv: "latest_value db code k = None \<or> (\<exists>name. latest_value db code k = Some (None, name))"
      by (auto simp: latest_data_code split: option.splits)
    from None have n: "\<not> contributes db code kw" "\<not> unnamed db code kw"
      by (simp_all add: contributes_def unnamed_def kw)
    from lv have "score_loop db code (kw # weights) ts tw = score_loop db code weights ts tw"
      by (auto simp: kw)
    with n Cons.IH show ?thesis by (simp add: numerator_def denominator_def)
  next
    case (Some d)
    obtain v name where d: "d = (v, name)" by (cases d)
    with Some have lv: "latest_value db code k = Some (Some v, name)"
      by (auto simp: latest_data_code split: option.splits)
    have c: "contributes db code kw" using Some by (simp add: contributes_def kw)
    show ?thesis
    proof (cases name)
      case None
      with Some d have "unnamed db code kw" by (simp add: unnamed_def kw)
      moreover from lv None have "score_loop db code (kw # weights) ts tw = Inl AttributeError"
        by (simp add: kw)
      ultimately show ?thesis by simp
    next
      case (Some nm)
      with \<open>latest_data db code k = Some d\<close> d have n: "\<not> unnamed db code kw"
        and cv: "contribution db code k = adjusted v nm"
        by (simp_all add: unnamed_def contribution_code kw)
      from lv Some have "score_loop db code (kw # weights) ts tw =
          score_loop db code weights (ts + adjusted v nm * w) (tw + w)"
        by (simp add: kw)
      with n c cv Cons.IH show ?thesis
        by (simp add: kw numerator_def denominator_def algebra_simps)
    qed
  qed
qed

lemma calculate_score_result:
  "calculate_score db code weights =
     (if list_ex (unnamed db code) weights then Inl AttributeError
      else Inr (if 0 < denominator db code weights
                then numerator db code weights / denominator db code weights else 0))"
  by (simp add: calculate_score_def score_loop_result)

lemma named_not_unnamed: "named db \<Longrightarrow> \<not> list_ex (unnamed db code) weights"
proof
  assume n: "named db" and "list_ex (unnamed db code) weights"
  then obtain kw where "unnamed db code kw" by (auto simp: list_ex_iff)
  then obtain v where "latest_value db code (fst kw) = Some (Some v, None)"
    by (auto simp: unnamed_def latest_data_code split: option.splits)
  with n named_latest_value show False by blast
qed

lemma score_loop_filter:
  "score_loop db code (filter (contributes db code) weights) ts tw = score_loop db code weights ts tw"
proof (induction weights arbitrary: ts tw)
  case Nil
  then show ?case by simp
next
  case (Cons kw weights)
  obtain k w where kw: "kw = (k, w)" by (cases kw)
  show ?case
  proof (cases "contributes db code kw")
    case True
    then obtain v name where "latest_value db code k = Some (Some v, name)"
      by (auto simp: contributes_def latest_data_code kw split: option.splits)
    with True Cons show ?thesis by (simp add: kw split: option.splits)
  next
    case False
    then have "latest_value db code k = None \<or> (\<exists>name. latest_value db code k = Some (None, name))"
      by (auto simp: contributes_def latest_data_code kw split: option.splits)
    with False Cons show ?thesis by (auto simp: kw)
  qed
qed

lemma calculate_score_filter:
  "calculate_score db code (filter (contributes db code) weights) = calculate_score db code weights"
  by (simp add: calculate_score_def score_loop_filter)

lemma calculate_score_no_data:
  "filter (contributes db code) weights = [] \<Longrightarrow> calculate_score db code weights = Inr 0"
  using calculate_score_filter [of db code weights] by (simp add: calculate_score_def)

lemma sum_list_pos_real:
  fixes xs :: "real list"
  assumes "xs \<noteq> []" and "\<forall>x \<in> set xs. 0 < x"
  shows "0 < sum_list xs"
proof (cases xs)
  case Nil
  with assms show ?thesis by simp
next
  case (Cons x rest)
  have "0 \<le> sum_list rest"
    using assms(2) Cons by (intro sum_list_nonneg) (simp add: less_imp_le)
  moreover have "0 < x" using assms(2) Cons by simp
  ultimately show ?thesis using Cons by simp
qed

lemma denominator_positive:
  assumes "positive weights" and "filter (contributes db code) weights \<noteq> []"
  shows "0 < denominator db code weights"
proof -
  have "\<forall>w \<in> set (map snd (filter (contributes db code) weights)). 0 < w"
    using assms(1) by (auto simp: positive_def list_all_iff)
  moreover have "map snd (filter (contributes db code) weights) \<noteq> []" using assms(2) by simp
  ultimately show ?thesis unfolding denominator_def by (rule sum_list_pos_real [rotated])
qed

lemma calculate_score_named:
  "named db \<Longrightarrow>
     calculate_score db code weights =
       Inr (if 0 < denominator db code weights
            then numerator db code weights / denominator db code weights else 0)"
  by (simp add: calculate_score_result named_not_unnamed)

lemma contributes_latest_observation:
  "contributes db code kw \<longleftrightarrow>
     (\<exists>row v. latest_observation db code (fst kw) = Some row \<and> obs_value row = Some v)"
  by (auto simp: contributes_def latest_data_def split: option.splits)

lemma contribution_latest_observation:
  assumes "latest_observation db code icode = Some row"
    and "obs_value row = Some v" and "indicator_name row = Some name"
  shows "contribution db code icode =
           (if lower_is_better_spec name then 1 - normalize_spec v name else normalize_spec v name)"
  using assms by (simp add: contribution_def latest_data_def adjusted_spec_def)

lemma calculate_score_single:
  assumes "latest_observation db code icode = Some row"
    and "obs_value row = Some v" and "indicator_name row = Some name" and "0 < w"
  shows "calculate_score db code [(icode, w)] = Inr (contribution db code icode)"
proof -
  from assms have c: "contributes db code (icode, w)" and u: "\<not> unnamed db code (icode, w)"
    by (simp_all add: contributes_def unnamed_def latest_data_def)
  from c have "numerator db code [(icode, w)] = contribution db code icode * w"
    and "denominator db code [(icode, w)] = w"
    by (simp_all add: numerator_def denominator_def)
  with u assms(4) show ?thesis by (simp add: calculate_score_result)
qed

text \<open>
  Claim C2. The loop of \<open>calculate_score\<close> passes over the weight map. The latest
  observation of the entity for an indicator is a row of that entity and indicator whose
  year is greatest among all such rows, and there is none exactly when the table has no
  such row. An indicator whose latest observation is absent or \<open>NULL\<close> adds to neither
  sum, so the score of a weight map is the score of its contributing entries alone; every
  other indicator adds the value of its latest observation, normalized by the rule table
  and inverted to \<open>1 - normalized\<close> when its name is lower-is-better, times its weight to
  the numerator, and its weight to the denominator. The result is numerator over
  denominator when the denominator is positive, which it is for positive weights as soon
  as one entry contributes (the call raises \<open>AttributeError\<close> instead when the latest
  observation of an entry has a value and no name, which no store whose observations are
  named has); it is 0 when no entry contributes, in particular when no observation of the
  entity for an indicator of the weight map has a value. The score under a single
  positive weight is the adjusted value of the latest observation itself. And the score
  under \<open>{A: 1, B: 1}\<close> where only \<open>A\<close> has data is the score under \<open>{A: 1}\<close>.
\<close>

theorem calculate_score_weighted_average:
  "calculate_score db code weights =
     (if list_ex (unnamed db code) weights then Inl AttributeError
      else Inr (if 0 < denominator db code weights
                then numerator db code weights / denominator db code weights else 0))
   \<and> (named db \<longrightarrow> \<not> list_ex (unnamed db code) weights)
   \<and> (positive weights \<and> filter (contributes db code) weights \<noteq> [] \<longrightarrow>
        0 < denominator db code weights)
   \<and> calculate_score db code (filter (contributes db code) weights) = calculate_score db code weights
   \<and> (filter (contributes db code) weights = [] \<longrightarrow> calculate_score db code weights = Inr 0)
   \<and> ((\<forall>row \<in> set (indicators db).
          obs_city_code row = code \<and> indicator_code row \<in> set (map fst weights) \<longrightarrow> obs_value row = None)
        \<longrightarrow> calculate_score db code weights = Inr 0)
   \<and> (\<forall>a b. contributes db code (a, 1) \<and> \<not> contributes db code (b, 1) \<longrightarrow>
          calculate_score db code [(a, 1), (b, 1)] = calculate_score db code [(a, 1)])
   \<and> (\<forall>icode row. latest_observation db code icode = Some row \<longrightarrow>
          row \<in> set (indicators db) \<and> obs_city_code row = code \<and> indicator_code row = icode
          \<and> (\<forall>r \<in> set (indicators db).
                obs_city_code r = code \<and> indicator_code r = icode \<longrightarrow> year r \<le> year row))
   \<and> (\<forall>icode. latest_observation db code icode = None \<longleftrightarrow>
          \<not> (\<exists>r \<in> set (indicators db). obs_city_code r = code \<and> indicator_code r = icode))
   \<and> (\<forall>kw. contributes db code kw \<longleftrightarrow>
          (\<exists>row v. latest_observation db code (fst kw) = Some row \<and> obs_value row = Some v))
   \<and> (\<forall>icode row v name.
          latest_observation db code icode = Some row \<and> obs_value row = Some v
            \<and> indicator_name row = Some name \<longrightarrow>
          contribution db code icode =
            (if lower_is_better_spec name then 1 - normalize_spec v name else normalize_spec v name)
          \<and> (\<forall>w. 0 < w \<longrightarrow> calculate_score db code [(icode, w)] = Inr (contribution db code icode)))"
proof -
  have ab: "calculate_score db code [(a, 1), (b, 1)] = calculate_score db code [(a, 1)]"
    if "contributes db code (a, 1)" and "\<not> contributes db code (b, 1)" for a b
    using calculate_score_filter [of db code "[(a, 1), (b, 1)]"]
      calculate_score_filter [of db code "[(a, 1)]"] that by simp
  have none: "calculate_score db code weights = Inr 0"
    if a: "\<forall>row \<in> set (indicators db).
          obs_city_code row = code \<and> indicator_code row \<in> set (map fst weights) \<longrightarrow> obs_value row = None"
  proof -
    have "\<not> contributes db code kw" if "kw \<in> set weights" for kw
    proof
      assume "contributes db code kw"
      from contributes_row [OF this] obtain row where "row \<in> set (indicators db)"
        "obs_city_code row = code" "indicator_code row = fst kw" "obs_value row \<noteq> None" by blast
      with a that show False by force
    qed
    then have "filter (contributes db code) weights = []" by (simp add: filter_empty_conv)
    then show ?thesis by (rule calculate_score_no_data)
  qed
  have a1: "calculate_score db code weights =
     (if list_ex (unnamed db code) weights then Inl AttributeError
      else Inr (if 0 < denominator db code weights
                then numerator db code weights / denominator db code weights else 0))"
    by (rule calculate_score_result)
  have a2: "named db \<longrightarrow> \<not> list_ex (unnamed db code) weights"
    using named_not_unnamed by blast
  have a3: "positive weights \<and> filter (contributes db code) weights \<noteq> [] \<longrightarrow>
        0 < denominator db code weights"
    using denominator_positive by blast
  have a4: "calculate_score db code (filter (contributes db code) weights) = calculate_score db code weights"
    by (rule calculate_score_filter)
  have a5: "filter (contributes db code) weights = [] \<longrightarrow> calculate_score db code weights = Inr 0"
    using calculate_score_no_data by blast
  have a6: "(\<forall>row \<in> set (indicators db).
          obs_city_code row = code \<and> indicator_code row \<in> set (map fst weights) \<longrightarrow> obs_value row = None)
        \<longrightarrow> calculate_score db code weights = Inr 0"
    using none by blast
  have a7: "\<forall>a b. contributes db code (a, 1) \<and> \<not> contributes db code (b, 1) \<longrightarrow>
          calculate_score db code [(a, 1), (b, 1)] = calculate_score db code [(a, 1)]"
    using ab by blast
  have latest: "\<forall>icode row. latest_observation db code icode = Some row \<longrightarrow>
          row \<in> set (indicators db) \<and> obs_city_code row = code \<and> indicator_code row = icode
          \<and> (\<forall>r \<in> set (indicators db).
                obs_city_code r = code \<and> indicator_code r = icode \<longrightarrow> year r \<le> year row)"
    using latest_observation_greatest by blast
  have absent: "\<forall>icode. latest_observation db code icode = None \<longleftrightarrow>
          \<not> (\<exists>r \<in> set (indicators db). obs_city_code r = code \<and> indicator_code r = icode)"
    using latest_observation_None by blast
  have contrib: "\<forall>kw. contributes db code kw \<longleftrightarrow>
          (\<exists>row v. latest_observation db code (fst kw) = Some row \<and> obs_value row = Some v)"
    using contributes_latest_observation by blast
  have val: "\<forall>icode row v name.
          latest_observation db code icode = Some row \<and> obs_value row = Some v
            \<and> indicator_name row = Some name \<longrightarrow>
          contribution db code icode =
            (if lower_is_better_spec name then 1 - normalize_spec v name else normalize_spec v name)
          \<and> (\<forall>w. 0 < w \<longrightarrow> calculate_score db code [(icode, w)] = Inr (contribution db code icode))"
    using contribution_latest_observation calculate_score_single by blast
  show ?thesis
    by (intro conjI a1 a2 a3 a4 a5 a6 a7 latest absent contrib val)
qed

theorem calculate_score_weighted_average_witness:
  "named two_years \<and> positive [(''TT1'', 1), (''TT2'', 3), (''TT3'', 1), (''TT9'', 1)]
   \<and> latest_observation two_years ''FR001C'' ''TT1''
       = Some ((paris_row (Some 2020) 25)\<lparr>indicator_name := Some ''Cost in EUR''\<rparr>)
   \<and> lower_is_better_spec ''Cost in EUR'' \<and> normalize_spec 25 ''Cost in EUR'' = 1 / 4
   \<and> contribution two_years ''FR001C'' ''TT1'' = 3 / 4
   \<and> calculate_score two_years ''FR001C'' [(''TT1'', 1)] = Inr (3 / 4)
   \<and> calculate_score two_years ''FR001C'' [(''TT1'', 1), (''TT9'', 1)] = Inr (3 / 4)
   \<and> calculate_score two_years ''FR001C'' [(''TT9'', 1)] = Inr 0
   \<and> calculate_score two_years ''FR001C'' [(''TT3'', 1)] = Inr 0
   \<and> numerator two_years ''FR001C'' [(''TT1'', 1), (''TT2'', 3), (''TT3'', 1), (''TT9'', 1)] = 63 / 20
   \<and> denominator two_years ''FR001C'' [(''TT1'', 1), (''TT2'', 3), (''TT3'', 1), (''TT9'', 1)] = 4
   \<and> calculate_score two_years ''FR001C'' [(''TT1'', 1), (''TT2'', 3), (''TT3'', 1), (''TT9'', 1)]
       = Inr (63 / 80)"
proof -
  let ?cost = "(paris_row (Some 2020) 25)\<lparr>indicator_name := Some ''Cost in EUR''\<rparr>"
  let ?all = "[(''TT1'', 1), (''TT2'', 3), (''TT3'', 1), (''TT9'', 1)] :: (string \<times> real) list"
  have h: "named two_years" "positive ?all"
    by code_simp+
  have l: "latest_observation two_years ''FR001C'' ''TT1'' = Some ?cost"
    by code_simp
  have r: "obs_value ?cost = Some 25" "indicator_name ?cost = Some ''Cost in EUR''"
    by (simp_all add: paris_row_def)
  have p: "lower_is_better_spec ''Cost in EUR''" "normalize_spec 25 ''Cost in EUR'' = 1 / 4"
    by code_simp+
  have c: "contributes two_years ''FR001C'' (''TT1'', 1)" "\<not> contributes two_years ''FR001C'' (''TT9'', 1)"
    "filter (contributes two_years ''FR001C'') [(''TT9'', 1)] = []"
    "filter (contributes two_years ''FR001C'') [(''TT3'', 1)] = []"
    by code_simp+
  have n: "numerator two_years ''FR001C'' ?all = 63 / 20" "denominator two_years ''FR001C'' ?all = 4"
    by code_simp+
  note t = calculate_score_weighted_average [of two_years "''FR001C''" ?all]
  from t l r have "contribution two_years ''FR001C'' ''TT1'' =
      (if lower_is_better_spec ''Cost in EUR'' then 1 - normalize_spec 25 ''Cost in EUR''
       else normalize_spec 25 ''Cost in EUR'')"
    by blast
  with p have v: "contribution two_years ''FR001C'' ''TT1'' = 3 / 4" by simp
  from t l r have "\<forall>w. 0 < w \<longrightarrow>
      calculate_score two_years ''FR001C'' [(''TT1'', w)] = Inr (contribution two_years ''FR001C'' ''TT1'')"
    by blast
  with v have a: "calculate_score two_years ''FR001C'' [(''TT1'', 1)] = Inr (3 / 4)" by simp
  from t c(1,2) have "calculate_score two_years ''FR001C'' [(''TT1'', 1), (''TT9'', 1)]
      = calculate_score two_years ''FR001C'' [(''TT1'', 1)]"
    by blast
  with a have b: "calculate_score two_years ''FR001C'' [(''TT1'', 1), (''TT9'', 1)] = Inr (3 / 4)"
    by simp
  from calculate_score_weighted_average [of two_years "''FR001C''" "[(''TT9'', 1)]"] c(3)
  have z: "calculate_score two_years ''FR001C'' [(''TT9'', 1)] = Inr 0" by blast
  from calculate_score_weighted_average [of two_years "''FR001C''" "[(''TT3'', 1)]"] c(4)
  have y: "calculate_score two_years ''FR001C'' [(''TT3'', 1)] = Inr 0" by blast
  from t h(1) have "\<not> list_ex (unnamed two_years ''FR001C'') ?all" by blast
  with t n have s: "calculate_score two_years ''FR001C'' ?all = Inr (63 / 80)" by simp
  from h l p v a b z y n s show ?thesis by blast
qed

lemma adjusted_range: "0 \<le> v \<Longrightarrow> 0 \<le> adjusted v name \<and> adjusted v name \<le> 1"
  using normalize_value_range [of v name] by (simp add: adjusted_def Let_def)

lemma contribution_range:
  assumes "non_negative db"
  shows "0 \<le> contribution db code icode \<and> contribution db code icode \<le> 1"
proof (cases "latest_data db code icode")
  case None
  then show ?thesis by (simp add: contribution_code)
next
  case (Some d)
  obtain v name where d: "d = (v, name)" by (cases d)
  with Some have "latest_value db code icode = Some (Some v, name)"
    by (auto simp: latest_data_code split: option.splits)
  from latest_value_row [OF this] obtain row where "row \<in> set (indicators db)" "obs_value row = Some v"
    by blast
  with assms have "0 \<le> v" by (auto simp: non_negative_def list_all_iff)
  then show ?thesis using Some d adjusted_range [of v] by (cases name) (simp_all add: contribution_code)
qed

lemma numerator_bounds:
  assumes "non_negative db" and "positive weights"
  shows "0 \<le> numerator db code weights \<and> numerator db code weights \<le> denominator db code weights"
  using assms(2)
proof (induction weights)
  case Nil
  then show ?case by (simp add: numerator_def denominator_def)
next
  case (Cons kw weights)
  then have w: "0 < snd kw" and p: "positive weights" by (simp_all add: positive_def)
  note IH = Cons.IH [OF p]
  from contribution_range [OF assms(1), of code "fst kw"]
  have c: "0 \<le> contribution db code (fst kw)" "contribution db code (fst kw) \<le> 1" by simp_all
  have "0 \<le> contribution db code (fst kw) * snd kw" using c(1) w by simp
  moreover have "contribution db code (fst kw) * snd kw \<le> snd kw"
    using c(2) w by (simp add: mult_left_le_one_le)
  ultimately show ?case
    using IH by (auto simp: numerator_def denominator_def)
qed

lemma calculate_score_range:
  assumes "named db" and "non_negative db" and "positive weights"
  shows "\<exists>s. calculate_score db code weights = Inr s \<and> 0 \<le> s \<and> s \<le> 1"
proof -
  from numerator_bounds [OF assms(2,3), of code]
  have b: "0 \<le> numerator db code weights" "numerator db code weights \<le> denominator db code weights"
    by simp_all
  let ?s = "if 0 < denominator db code weights
            then numerator db code weights / denominator db code weights else 0"
  have "0 \<le> ?s \<and> ?s \<le> 1" using b by simp
  then show ?thesis using calculate_score_named [OF assms(1), of code weights] by simp
qed

text \<open>
  Claim C3, at the store that ingesting a cube with a negative observation leaves: the
  score is \<open>-1/2\<close>, outside [0, 1], although the docstring of \<open>calculate_score\<close>
  promises a score between 0 and 1.
\<close>

theorem calculate_score_negative:
  "store_data empty_store migration_cube =
     Inr (\<lparr>cities = [paris],
           indicators =
             [\<lparr>obs_city_code = ''FR001C'', indicator_code = ''MIG'', indicator_name = Some ''Net migration'',
               year = Some 2020, obs_value = Some (- 50000), status = ''''\<rparr>]\<rparr>,
          \<lparr>cities_added = 1, indicators_added = 1, skipped = 0, errors = 0\<rparr>)
   \<and> calculate_score
         \<lparr>cities = [paris],
          indicators =
            [\<lparr>obs_city_code = ''FR001C'', indicator_code = ''MIG'', indicator_name = Some ''Net migration'',
              year = Some 2020, obs_value = Some (- 50000), status = ''''\<rparr>]\<rparr>
         ''FR001C'' [(''MIG'', 1)] = Inr (- 1 / 2)"
  by code_simp

section \<open>Properties of the ranking\<close>

lemma rankings_loop_rows:
  "rankings_loop db weights rows acc = Inr out \<Longrightarrow> r \<in> set out \<Longrightarrow>
     r \<in> set acc \<or> (\<exists>row \<in> set rows. \<exists>s. r = Scored (city_code row) (city_name row) (country row) s)"
proof (induction rows arbitrary: acc)
  case Nil
  then show ?case by simp
next
  case (Cons row rows)
  from Cons.prems(1) obtain score where sc: "calculate_score db (city_code row) weights = Inr score"
    and rest: "rankings_loop db weights rows
       (if score > 0 then acc @ [Scored (city_code row) (city_name row) (country row) (round3 score)]
        else acc) = Inr out"
    by (auto split: sum.splits)
  from Cons.IH [OF rest Cons.prems(2)] show ?case
    by (auto split: if_splits)
qed

lemma set_slice_to: "set (slice_to limit xs) \<subseteq> set xs"
  by (auto simp: slice_to_def dest: in_set_takeD)

lemma rank_cities_rows:
  assumes "rank_cities db weights limit country_filter = Inr rows" and "r \<in> set rows"
  shows "\<exists>row \<in> set (select_cities db country_filter). \<exists>s.
           r = Scored (city_code row) (city_name row) (country row) s"
proof -
  from assms(1) obtain rankings where l: "rankings_loop db weights (select_cities db country_filter) [] = Inr rankings"
    and rows: "rows = slice_to limit (sort_key (\<lambda>r. - ranking_score r) rankings)"
    by (auto simp: rank_cities_def split: sum.splits)
  from assms(2) rows have "r \<in> set rankings" using set_slice_to by fastforce
  from rankings_loop_rows [OF l this] show ?thesis by simp
qed

lemma select_cities_filter:
  "f \<noteq> [] \<Longrightarrow> row \<in> set (select_cities db (Some f)) \<longleftrightarrow> row \<in> set (cities db) \<and> country row = Some f"
  by (simp add: select_cities_def)

text \<open>
  Claim C10, amended. For a stored city and a filter that equals its stored country up to
  the case of ASCII letters without being identical to it: \<open>list_cities\<close> with that
  filter returns the city, since it compares \<open>UPPER(country)\<close> with \<open>UPPER(?)\<close>;
  \<open>rank_cities\<close> with the same filter does not select the city, since it compares
  \<open>country = ?\<close>, and whatever the weights and the limit are its result has no row for
  the city.
\<close>

theorem country_filter_case_sensitivity:
  assumes "e \<in> set (cities db)" and "country e = Some c" and "lower f = lower c" and "f \<noteq> c"
  shows "e \<in> set (list_cities db (Some f))
       \<and> e \<notin> set (select_cities db (Some f))
       \<and> (\<forall>weights limit rows. rank_cities db weights limit (Some f) = Inr rows \<longrightarrow>
            (\<forall>s. Scored (city_code e) (city_name e) (country e) s \<notin> set rows)
            \<and> (distinct (map city_code (cities db)) \<longrightarrow>
                 (\<forall>name ctry s. Scored (city_code e) name ctry s \<notin> set rows)))"
proof -
  have ne: "f \<noteq> []"
  proof
    assume "f = []"
    with assms(3) have "c = []" by (simp add: lower_def)
    with \<open>f = []\<close> assms(4) show False by simp
  qed
  have "upper c = upper f" using assms(3) lower_upper by metis
  then have "in_country f e" using assms(2) by (simp add: in_country_def)
  then have listed: "e \<in> set (list_cities db (Some f))"
    using assms(1) ne by (simp add: list_cities_def)
  have sel: "e \<notin> set (select_cities db (Some f))"
    using assms(2,4) ne by (simp add: select_cities_filter)
  have rank: "(\<forall>s. Scored (city_code e) (city_name e) (country e) s \<notin> set rows)
            \<and> (distinct (map city_code (cities db)) \<longrightarrow>
                 (\<forall>name ctry s. Scored (city_code e) name ctry s \<notin> set rows))"
    if r: "rank_cities db weights limit (Some f) = Inr rows" for weights limit rows
  proof (intro conjI allI impI notI)
    fix s assume "Scored (city_code e) (city_name e) (country e) s \<in> set rows"
    from rank_cities_rows [OF r this] obtain row where "row \<in> set (select_cities db (Some f))"
      "country e = country row" by auto
    with ne assms(2,4) show False by (simp add: select_cities_filter)
  next
    fix name ctry s
    assume d: "distinct (map city_code (cities db))"
      and "Scored (city_code e) name ctry s \<in> set rows"
    from rank_cities_rows [OF r this(2)] obtain row where row: "row \<in> set (select_cities db (Some f))"
      "city_code e = city_code row" by auto
    then have "row \<in> set (cities db)" "country row = Some f" using ne by (simp_all add: select_cities_filter)
    with d assms(1) row(2) have "row = e" by (metis distinct_map inj_on_def)
    with \<open>country row = Some f\<close> assms(2,4) show False by simp
  qed
  from listed sel rank show ?thesis by blast
qed

theorem country_filter_case_sensitivity_witness:
  "paris \<in> set (cities paris_store) \<and> country paris = Some ''FR'' \<and> lower ''fr'' = lower ''FR''
   \<and> ''fr'' \<noteq> ''FR''
   \<and> list_cities paris_store (Some ''fr'') = [paris]
   \<and> paris \<in> set (list_cities paris_store (Some ''fr''))
   \<and> rank_cities paris_store [(''TT1'', 1)] 10 (Some ''fr'') = Inr []
   \<and> rank_cities paris_store [(''TT1'', 1)] 10 (Some ''FR'') =
       Inr [Scored ''FR001C'' (Some ''Paris'') (Some ''FR'') (21 / 50)]"
proof -
  have h: "paris \<in> set (cities paris_store)" "country paris = Some ''FR''" "lower ''fr'' = lower ''FR''"
    "''fr'' \<noteq> ''FR''"
    by code_simp+
  have l: "list_cities paris_store (Some ''fr'') = [paris]" by code_simp
  have r: "rank_cities paris_store [(''TT1'', 1)] 10 (Some ''fr'') = Inr []"
    "rank_cities paris_store [(''TT1'', 1)] 10 (Some ''FR'') =
       Inr [Scored ''FR001C'' (Some ''Paris'') (Some ''FR'') (21 / 50)]"
    by code_simp+
  from country_filter_case_sensitivity [OF h] have "paris \<in> set (list_cities paris_store (Some ''fr''))"
    by blast
  with h l r show ?thesis by blast
qed

text \<open>
  Claim C10 as stated fails for a letter outside ASCII. The filter is the stored country
  in capitals; \<open>UPPER\<close> leaves the accented letter of the stored name as it is, the two
  sides differ, and \<open>list_cities\<close> does not return the city.
\<close>

theorem list_cities_folds_ascii_only:
  "saint_denis \<in> set (cities reunion) \<and> country saint_denis = Some reunion_name
   \<and> fold_case reunion_capitals = fold_case reunion_name \<and> reunion_capitals \<noteq> reunion_name
   \<and> list_cities reunion (Some reunion_capitals) = []"
  by code_simp

lemma rank_cities_advanced_scored:
  assumes "weights \<noteq> []" and "rank_cities_advanced db weights ctry limit = Inr rows" and "r \<in> set rows"
  shows "\<exists>code name c s. r = Scored code name c s"
proof -
  from assms(1,2) have "rank_cities db weights limit (Some ctry) = Inr rows"
    by (simp add: rank_cities_advanced_def)
  from rank_cities_rows [OF this assms(3)] show ?thesis by blast
qed

text \<open>
  Claim C1, at the gazetteer store, where no city of the country has an observation of the
  requested indicator: the method that runs (the second definition of
  \<open>rank_cities_advanced\<close>) does not fall back and returns the empty weighted ranking; the
  first definition, which it replaces, returns the population ranking the claim describes.
\<close>

theorem rank_cities_advanced_no_data:
  "rank_cities_advanced gazetteer [(''TT1'', 1)] ''France'' 5 = Inr []
   \<and> rank_cities_advanced_first gazetteer [(''TT1'', 1)] ''France'' 5 =
       Inr [ByPopulation (Some ''Paris'') (Some ''France'') (Some 11060000),
            ByPopulation (Some ''Marseille'') (Some ''France'') (Some 873076),
            ByPopulation (Some ''Lyon'') (Some ''France'') None]"
  by code_simp

end
